theory Spec2Isabelle
  imports Main "HOL-Library.Sublist"
begin

section \<open>Python values and strings\<close>

text \<open>
  The script \<^verbatim>\<open>src/main.py\<close> works on the cells of a table read by pandas and on
  Python strings. A cell or an argument is \<^verbatim>\<open>None\<close>, the float \<^verbatim>\<open>nan\<close> that pandas puts
  in a missing cell, or a \<^verbatim>\<open>str\<close>. A \<^verbatim>\<open>str\<close> is a list of code points; the model covers
  the code points below 256, one \<^typ>\<open>char\<close> each.
\<close>

datatype pyval = PyNone | NaN | Str string

datatype error = AttributeError | KeyError | ValueError | ImportError | OtherException string

abbreviation LF :: char where "LF \<equiv> CHR 0x0A"
abbreviation CR :: char where "CR \<equiv> CHR 0x0D"

text \<open>\<^verbatim>\<open>str(x)\<close> as an f-string and \<^verbatim>\<open>str()\<close> render it.\<close>

fun py_str :: "pyval \<Rightarrow> string" where
  "py_str PyNone = ''None''"
| "py_str NaN = ''nan''"
| "py_str (Str s) = s"

text \<open>\<^verbatim>\<open>x or ''\<close>: \<^verbatim>\<open>None\<close> and the empty string are falsy, \<^verbatim>\<open>nan\<close> is truthy.\<close>

fun or_empty :: "pyval \<Rightarrow> pyval" where
  "or_empty PyNone = Str []"
| "or_empty NaN = NaN"
| "or_empty (Str s) = (if s = [] then Str [] else Str s)"

text \<open>
  \<^verbatim>\<open>str.lower\<close> on code points below 256: the letters A-Z, and the Latin-1 capitals
  U+00C0 to U+00DE without the multiplication sign U+00D7, move up by 32.
\<close>

definition lower_char :: "char \<Rightarrow> char" where
  "lower_char c =
     (let n = (of_char c :: nat)
      in if (65 \<le> n \<and> n \<le> 90) \<or> (192 \<le> n \<and> n \<le> 222 \<and> n \<noteq> 215)
         then char_of (n + 32) else c)"

definition lower :: "string \<Rightarrow> string" where
  "lower s = map lower_char s"

text \<open>\<^verbatim>\<open>x.lower()\<close> on a value: only a \<^verbatim>\<open>str\<close> has the method.\<close>

fun py_lower :: "pyval \<Rightarrow> error + string" where
  "py_lower (Str s) = Inr (lower s)"
| "py_lower v = Inl AttributeError"

text \<open>
  The characters \<^verbatim>\<open>str.isspace\<close> accepts, below 256: tab to carriage return, the
  separators U+001C to U+001F, the space, U+0085 and U+00A0. \<^verbatim>\<open>strip()\<close> and
  \<^verbatim>\<open>split()\<close> without arguments use this set.
\<close>

definition is_space :: "char \<Rightarrow> bool" where
  "is_space c =
     (let n = (of_char c :: nat)
      in (9 \<le> n \<and> n \<le> 13) \<or> (28 \<le> n \<and> n \<le> 32) \<or> n = 133 \<or> n = 160)"

definition strip :: "string \<Rightarrow> string" where
  "strip s = rev (dropWhile is_space (rev (dropWhile is_space s)))"

text \<open>\<^verbatim>\<open>k in t\<close> on strings: \<open>k\<close> starts at some position of \<open>t\<close>.\<close>

fun contains :: "string \<Rightarrow> string \<Rightarrow> bool" where
  "contains k [] = (k = [])"
| "contains k (c # cs) = (prefix k (c # cs) \<or> contains k cs)"

text \<open>
  \<^verbatim>\<open>text.split()\<close>: the maximal runs of non-space characters, in order. \<open>split_acc\<close>
  carries the current run, reversed.
\<close>

fun split_acc :: "string \<Rightarrow> string \<Rightarrow> string list" where
  "split_acc acc [] = (if acc = [] then [] else [rev acc])"
| "split_acc acc (c # cs) =
     (if is_space c
      then (if acc = [] then split_acc [] cs else rev acc # split_acc [] cs)
      else split_acc (c # acc) cs)"

definition split_ws :: "string \<Rightarrow> string list" where
  "split_ws s = split_acc [] s"

text \<open>\<^verbatim>\<open>sep.join(ws)\<close>.\<close>

fun join :: "string \<Rightarrow> string list \<Rightarrow> string" where
  "join sep [] = []"
| "join sep [w] = w"
| "join sep (w # v # ws) = w @ sep @ join sep (v # ws)"

text \<open>
  \<^verbatim>\<open>xs[:n]\<close> for a Python integer \<open>n\<close>: a negative bound counts from the end.
\<close>

definition slice_to :: "'a list \<Rightarrow> int \<Rightarrow> 'a list" where
  "slice_to xs n = (if 0 \<le> n then take (nat n) xs else take (length xs - nat (- n)) xs)"

section \<open>Text normalizer\<close>

text \<open>
  \<^verbatim>\<open>re.sub(r"\r\n", "\n", text)\<close>: one pass from the left, every carriage return that is
  followed by a line feed is dropped.
\<close>

fun sub_crlf :: "string \<Rightarrow> string" where
  "sub_crlf (a # b # cs) =
     (if a = CR \<and> b = LF then LF # sub_crlf cs else a # sub_crlf (b # cs))"
| "sub_crlf cs = cs"

text \<open>
  \<^verbatim>\<open>re.sub(r"\n{2,}", "\n\n", text)\<close>: the quantifier is greedy, so every maximal run of
  two or more line feeds becomes two.
\<close>

function sub_newlines :: "string \<Rightarrow> string" where
  "sub_newlines (a # b # cs) =
     (if a = LF \<and> b = LF then LF # LF # sub_newlines (dropWhile (\<lambda>c. c = LF) cs)
      else a # sub_newlines (b # cs))"
| "sub_newlines [a] = [a]"
| "sub_newlines [] = []"
  by pat_completeness auto
termination
  by (relation "measure length") (auto simp: less_Suc_eq_le le_SucI length_dropWhile_le)

text \<open>
  \<^verbatim>\<open>re.split(r"\n--\n|\nRegards,|\nBest,|\nThanks,", text)\<close>: the alternatives are
  literal strings. \<open>re_split\<close> scans from the left; where an alternative starts (the first
  in the list that does), the piece read so far is closed and the scan goes on behind the
  match. The result always has a first piece.
\<close>

definition markers :: "string list" where
  "markers = [LF # ''--'' @ [LF], LF # ''Regards,'', LF # ''Best,'', LF # ''Thanks,'']"

fun re_split :: "string list \<Rightarrow> string \<Rightarrow> string \<Rightarrow> string list" where
  "re_split alts acc [] = [rev acc]"
| "re_split alts acc (c # cs) =
     (case find (\<lambda>m. prefix m (c # cs)) alts of
        Some m \<Rightarrow> rev acc # re_split alts [] (drop (length m - 1) cs)
      | None \<Rightarrow> re_split alts (c # acc) cs)"

fun clean_text :: "pyval \<Rightarrow> string" where
  "clean_text (Str text) =
     strip (hd (re_split markers [] (sub_newlines (sub_crlf text))))"
| "clean_text v = []"

section \<open>Classifiers\<close>

text \<open>
  Each classifier starts with \<^verbatim>\<open>t = (text or '').lower()\<close>, which raises for a value
  that is no string, and then tests its keywords with \<^verbatim>\<open>in\<close>, tier by tier.
\<close>

definition detect_urgency :: "pyval \<Rightarrow> error + string" where
  "detect_urgency text =
     (case py_lower (or_empty text) of
        Inl e \<Rightarrow> Inl e
      | Inr t \<Rightarrow>
          Inr (if list_ex (\<lambda>k. contains k t)
                    [''urgent'', ''critical'', ''immediate'', ''downtime'', ''blocked'']
               then ''high''
               else if list_ex (\<lambda>k. contains k t)
                    [''help'', ''support'', ''issue'', ''problem'', ''error'']
               then ''medium''
               else ''low''))"

definition detect_topic :: "pyval \<Rightarrow> error + string" where
  "detect_topic text =
     (case py_lower (or_empty text) of
        Inl e \<Rightarrow> Inl e
      | Inr t \<Rightarrow>
          Inr (if contains ''billing'' t \<or> contains ''refund'' t \<or> contains ''pricing'' t
               then ''billing/refund''
               else if contains ''login'' t \<or> contains ''password'' t
                       \<or> contains ''account'' t \<or> contains ''access'' t
               then ''login/account''
               else if contains ''integration'' t \<or> contains ''api'' t \<or> contains ''crm'' t
               then ''integration/api''
               else if contains ''downtime'' t \<or> contains ''system'' t \<or> contains ''outage'' t
               then ''system/downtime''
               else ''general''))"

definition simple_sentiment :: "pyval \<Rightarrow> error + string" where
  "simple_sentiment text =
     (case py_lower (or_empty text) of
        Inl e \<Rightarrow> Inl e
      | Inr t \<Rightarrow>
          Inr (if list_ex (\<lambda>k. contains k t)
                    [''thank'', ''great'', ''appreciate'', ''good'', ''love'']
               then ''positive''
               else if list_ex (\<lambda>k. contains k t)
                    [''angry'', ''bad'', ''worst'', ''unacceptable'', ''terrible'']
               then ''negative''
               else ''neutral''))"

section \<open>Summarizer and reply generator\<close>

text \<open>
  \<^verbatim>\<open>summarize(text, max_words=25)\<close>. \<^verbatim>\<open>str(text or '')\<close> never raises; the slice and
  the comparison take any Python integer.
\<close>

definition summarize :: "pyval \<Rightarrow> int \<Rightarrow> string" where
  "summarize text max_words =
     (let words = split_ws (py_str (or_empty text))
      in join '' '' (slice_to words max_words)
         @ (if int (length words) > max_words then ''...'' else []))"

definition default_max_words :: int where
  "default_max_words = 25"

text \<open>
  \<^verbatim>\<open>generate_reply(row)\<close> reads a dict with \<^verbatim>\<open>row.get\<close>, which gives \<^verbatim>\<open>None\<close> for a
  missing key; the f-strings render what they get.
\<close>

definition dict_get :: "(string \<rightharpoonup> pyval) \<Rightarrow> string \<Rightarrow> pyval" where
  "dict_get row k = (case row k of None \<Rightarrow> PyNone | Some v \<Rightarrow> v)"

definition generate_reply :: "(string \<rightharpoonup> pyval) \<Rightarrow> string" where
  "generate_reply row =
     (if dict_get row ''likely_urgency'' = Str ''high''
      then ''Dear '' @ py_str (dict_get row ''sender'') @ [CHR '','', LF, LF]
           @ ''We understand your issue is urgent regarding ''
           @ py_str (dict_get row ''subject_topic'')
           @ ''. Our team is already working on it and will update you shortly.''
           @ [LF, LF] @ ''Best regards,'' @ [LF] @ ''Support Team''
      else if dict_get row ''likely_urgency'' = Str ''medium''
      then ''Dear '' @ py_str (dict_get row ''sender'') @ [CHR '','', LF, LF]
           @ ''Thank you for reaching out about ''
           @ py_str (dict_get row ''subject_topic'')
           @ ''. We are reviewing your request and will get back soon.''
           @ [LF, LF] @ ''Best regards,'' @ [LF] @ ''Support Team''
      else ''Dear '' @ py_str (dict_get row ''sender'') @ [CHR '','', LF, LF]
           @ ''Thanks for contacting us. We noted your query about ''
           @ py_str (dict_get row ''subject_topic'')
           @ '' and will respond in due course.''
           @ [LF, LF] @ ''Best regards,'' @ [LF] @ ''Support Team'')"

section \<open>External generator\<close>

text \<open>
  The environment of a run: the two environment variables, whether \<^verbatim>\<open>import openai\<close>
  succeeds, and \<^verbatim>\<open>openai.ChatCompletion.create\<close>, which reads and changes a world \<open>'w\<close>
  outside the program and either raises or returns a response. A request carries the
  model, the content of its single user message and \<^verbatim>\<open>max_tokens\<close>; the temperature is
  the constant 0.2 in both calls. A response is falsy, or has a list of choices, each
  with the value of \<^verbatim>\<open>message['content']\<close>.
\<close>

record request =
  req_model :: string
  req_content :: string
  req_max_tokens :: nat

datatype response = NoResponse | Response (choices: "pyval list")

record 'w env =
  api_key :: "string option"
  openai_model :: "string option"
  openai_installed :: bool
  create :: "request \<Rightarrow> 'w \<Rightarrow> (error + response) \<times> 'w"

text \<open>\<^verbatim>\<open>os.getenv('OPENAI_MODEL','gpt-4o-mini')\<close>.\<close>

definition model_name :: "'w env \<Rightarrow> string" where
  "model_name env = (case openai_model env of None \<Rightarrow> ''gpt-4o-mini'' | Some m \<Rightarrow> m)"

text \<open>
  \<^verbatim>\<open>resp.choices[0].message['content'].strip() if resp and resp.choices else None\<close>:
  \<^verbatim>\<open>strip\<close> is a method of strings only.
\<close>

fun first_choice_text :: "response \<Rightarrow> error + string option" where
  "first_choice_text NoResponse = Inr None"
| "first_choice_text (Response []) = Inr None"
| "first_choice_text (Response (Str s # cs)) = Inr (Some (strip s))"
| "first_choice_text (Response (v # cs)) = Inl AttributeError"

definition prompt_sum :: "string \<Rightarrow> string" where
  "prompt_sum text =
     ''Provide a 1-2 sentence summary of the following support email:'' @ [LF, LF] @ text"

definition prompt_reply :: "string \<Rightarrow> string" where
  "prompt_reply text =
     ''Draft a concise support reply (4-6 sentences) for the email:'' @ [LF, LF] @ text"

text \<open>
  The two calls of \<^verbatim>\<open>openai.ChatCompletion.create\<close>: the model, one user message with the
  prompt, and \<^verbatim>\<open>max_tokens\<close> 120 and 250.
\<close>

definition summary_request :: "'w env \<Rightarrow> string \<Rightarrow> request" where
  "summary_request env text =
     \<lparr>req_model = model_name env, req_content = prompt_sum text, req_max_tokens = 120\<rparr>"

definition reply_request :: "'w env \<Rightarrow> string \<Rightarrow> request" where
  "reply_request env text =
     \<lparr>req_model = model_name env, req_content = prompt_reply text, req_max_tokens = 250\<rparr>"

text \<open>
  \<^verbatim>\<open>try_openai_summary_and_reply(text)\<close>. Without a key (unset or empty) nothing is
  called. Every exception inside the \<^verbatim>\<open>try\<close> block, the one of a failed import too, ends
  in \<^verbatim>\<open>return None, None\<close>; the world keeps the effects of the calls made until then.
\<close>

definition try_openai_summary_and_reply ::
  "'w env \<Rightarrow> string \<Rightarrow> 'w \<Rightarrow> (string option \<times> string option) \<times> 'w" where
  "try_openai_summary_and_reply env text w =
     (case api_key env of
        None \<Rightarrow> ((None, None), w)
      | Some key \<Rightarrow>
          if key = [] then ((None, None), w)
          else if \<not> openai_installed env then ((None, None), w)
          else
            (case create env (summary_request env text) w of
               (Inl e, w1) \<Rightarrow> ((None, None), w1)
             | (Inr resp, w1) \<Rightarrow>
                 (case first_choice_text resp of
                    Inl e \<Rightarrow> ((None, None), w1)
                  | Inr summary \<Rightarrow>
                      (case create env (reply_request env text) w1 of
                         (Inl e, w2) \<Rightarrow> ((None, None), w2)
                       | (Inr resp2, w2) \<Rightarrow>
                           (case first_choice_text resp2 of
                              Inl e \<Rightarrow> ((None, None), w2)
                            | Inr reply \<Rightarrow> ((summary, reply), w2))))))"

section \<open>Row enrichment\<close>

text \<open>
  The table read from the input file: one record per row, a cell being a string or the
  \<^verbatim>\<open>nan\<close> of a missing value (a missing column is a column of empty strings). Cells
  that pandas reads as numbers are not covered. The output has the input columns and the
  eight derived ones.
\<close>

record input_row =
  sender :: pyval
  subject :: pyval
  body :: pyval

record enriched = input_row +
  clean_body :: string
  urg_subj :: string
  urg_body :: string
  likely_urgency :: string
  subject_topic :: string
  sentiment :: string
  summary :: string
  auto_reply :: string

text \<open>\<^verbatim>\<open>Series.fillna('')\<close> on one cell.\<close>

fun fillna :: "pyval \<Rightarrow> pyval" where
  "fillna (Str s) = Str s"
| "fillna v = Str []"

text \<open>\<^verbatim>\<open>Series.apply(f)\<close>: \<open>f\<close> on every cell in order; the first exception ends it.\<close>

fun apply_col :: "('a \<Rightarrow> error + 'b) \<Rightarrow> 'a list \<Rightarrow> error + 'b list" where
  "apply_col f [] = Inr []"
| "apply_col f (x # xs) =
     (case f x of
        Inl e \<Rightarrow> Inl e
      | Inr y \<Rightarrow> (case apply_col f xs of Inl e \<Rightarrow> Inl e | Inr ys \<Rightarrow> Inr (y # ys)))"

text \<open>
  \<^verbatim>\<open>df[col] = df.apply(f, axis=1)\<close>: \<open>f\<close> on every row in order. For a table without
  rows pandas returns a copy of the table instead of a column, and the assignment of a
  table with several columns to one column raises \<^verbatim>\<open>ValueError\<close>.
\<close>

fun apply_rows :: "('a \<Rightarrow> error + 'b) \<Rightarrow> 'a list \<Rightarrow> error + 'b list" where
  "apply_rows f [] = Inl ValueError"
| "apply_rows f (x # xs) = apply_col f (x # xs)"

text \<open>
  \<^verbatim>\<open>order = {'low':0,'medium':1,'high':2}\<close> and the lambda that picks
  \<^verbatim>\<open>likely_urgency\<close>; \<^verbatim>\<open>order[x]\<close> raises for a key that is not there.
\<close>

definition order :: "string \<rightharpoonup> nat" where
  "order = [''low'' \<mapsto> 0, ''medium'' \<mapsto> 1, ''high'' \<mapsto> 2]"

definition pick_urgency :: "string \<times> string \<Rightarrow> error + string" where
  "pick_urgency r =
     (case order (fst r) of
        None \<Rightarrow> Inl KeyError
      | Some a \<Rightarrow>
          (case order (snd r) of
             None \<Rightarrow> Inl KeyError
           | Some b \<Rightarrow> Inr (if a \<ge> b then fst r else snd r)))"

text \<open>
  The loop over \<^verbatim>\<open>df.iterrows()\<close>: the external generator first, then the deterministic
  summary and reply for what it left \<^verbatim>\<open>None\<close>. A row is given by its sender, cleaned
  body, topic and urgency.
\<close>

definition summary_and_reply ::
  "'w env \<Rightarrow> pyval \<times> string \<times> string \<times> string \<Rightarrow> 'w \<Rightarrow> (string \<times> string) \<times> 'w" where
  "summary_and_reply env row w =
     (case row of (snd_r, cb, topic, urg) \<Rightarrow>
        (case try_openai_summary_and_reply env cb w of
           ((s, rep), w') \<Rightarrow>
             ((case s of None \<Rightarrow> summarize (Str cb) default_max_words | Some x \<Rightarrow> x,
               case rep of
                 None \<Rightarrow> generate_reply [''sender'' \<mapsto> snd_r, ''subject_topic'' \<mapsto> Str topic,
                                          ''likely_urgency'' \<mapsto> Str urg]
               | Some x \<Rightarrow> x), w')))"

fun iterrows ::
  "'w env \<Rightarrow> (pyval \<times> string \<times> string \<times> string) list \<Rightarrow> 'w \<Rightarrow> (string \<times> string) list \<times> 'w"
  where
  "iterrows env [] w = ([], w)"
| "iterrows env (row # rows) w =
     (case summary_and_reply env row w of
        (sr, w1) \<Rightarrow> (case iterrows env rows w1 of (srs, w2) \<Rightarrow> (sr # srs, w2)))"

definition assemble ::
  "input_row \<times> string \<times> string \<times> string \<times> string \<times> string \<times> string \<times> string \<times> string
     \<Rightarrow> enriched" where
  "assemble x =
     (case x of (r, cb, us, ub, lu, tp, se, s, rep) \<Rightarrow>
        \<lparr>sender = sender r, subject = subject r, body = body r, clean_body = cb,
         urg_subj = us, urg_body = ub, likely_urgency = lu, subject_topic = tp,
         sentiment = se, summary = s, auto_reply = rep\<rparr>)"

text \<open>
  \<^verbatim>\<open>main()\<close>, on the content of the input file (\<open>None\<close> when the file does not exist:
  a message is printed and nothing is written). The result is the table written to the
  output file, or the exception that ended the run.
\<close>

definition main ::
  "'w env \<Rightarrow> input_row list option \<Rightarrow> 'w \<Rightarrow> (error + enriched list option) \<times> 'w" where
  "main env csv w =
     (case csv of
        None \<Rightarrow> (Inr None, w)
      | Some df0 \<Rightarrow>
          (let df = map (\<lambda>r. r\<lparr>subject := fillna (subject r), body := fillna (body r)\<rparr>) df0;
               clean_bodies = map (\<lambda>r. clean_text (body r)) df
           in case apply_col detect_urgency (map subject df) of
                Inl e \<Rightarrow> (Inl e, w)
              | Inr urg_subjs \<Rightarrow>
             (case apply_col detect_urgency (map Str clean_bodies) of
                Inl e \<Rightarrow> (Inl e, w)
              | Inr urg_bodies \<Rightarrow>
             (case apply_rows pick_urgency (zip urg_subjs urg_bodies) of
                Inl e \<Rightarrow> (Inl e, w)
              | Inr likely \<Rightarrow>
             (case apply_col detect_topic (map subject df) of
                Inl e \<Rightarrow> (Inl e, w)
              | Inr topics \<Rightarrow>
             (case apply_col simple_sentiment (map Str clean_bodies) of
                Inl e \<Rightarrow> (Inl e, w)
              | Inr sentiments \<Rightarrow>
             (case iterrows env (zip (map sender df) (zip clean_bodies (zip topics likely))) w of
                (srs, w') \<Rightarrow>
                  (Inr (Some (map assemble
                     (zip df (zip clean_bodies (zip urg_subjs (zip urg_bodies (zip likely
                       (zip topics (zip sentiments srs))))))))), w'))))))))"

section \<open>The statements of the specification\<close>

text \<open>
  The definitions of this section follow the words of the specification, not the code;
  the theorems below compare the two.
\<close>

text \<open>
  A keyword occurs in a text case-insensitively when some stretch of the text equals it
  up to case.
\<close>

definition occurs_ci :: "string \<Rightarrow> string \<Rightarrow> bool" where
  "occurs_ci k s = (\<exists>ps m ss. s = ps @ m @ ss \<and> lower m = lower k)"

text \<open>
  Section 4.3: four keyword groups in priority order, the first group with a keyword in
  the text gives the label, else the default.
\<close>

definition topic_groups :: "(string list \<times> string) list" where
  "topic_groups =
     [([''billing'', ''refund'', ''pricing''], ''billing/refund''),
      ([''login'', ''password'', ''account'', ''access''], ''login/account''),
      ([''integration'', ''api'', ''crm''], ''integration/api''),
      ([''downtime'', ''system'', ''outage''], ''system/downtime'')]"

fun first_group :: "(string list \<times> string) list \<Rightarrow> string \<Rightarrow> string \<Rightarrow> string" where
  "first_group [] dflt s = dflt"
| "first_group ((ks, l) # gs) dflt s =
     (if list_ex (\<lambda>k. occurs_ci k s) ks then l else first_group gs dflt s)"

text \<open>Section 6: the three reply templates, as the specification prints them.\<close>

definition template_high :: "string \<Rightarrow> string \<Rightarrow> string" where
  "template_high who what =
     ''Dear '' @ who
     @ '',\<newline>\<newline>We understand your issue is urgent regarding '' @ what
     @ ''. Our team is already working on it and will update you shortly.\<newline>\<newline>Best regards,\<newline>Support Team''"

definition template_medium :: "string \<Rightarrow> string \<Rightarrow> string" where
  "template_medium who what =
     ''Dear '' @ who
     @ '',\<newline>\<newline>Thank you for reaching out about '' @ what
     @ ''. We are reviewing your request and will get back soon.\<newline>\<newline>Best regards,\<newline>Support Team''"

definition template_low :: "string \<Rightarrow> string \<Rightarrow> string" where
  "template_low who what =
     ''Dear '' @ who
     @ '',\<newline>\<newline>Thanks for contacting us. We noted your query about '' @ what
     @ '' and will respond in due course.\<newline>\<newline>Best regards,\<newline>Support Team''"

text \<open>
  Section 4.5: a token of \<^verbatim>\<open>split()\<close> is a non-empty string without whitespace.
\<close>

definition is_token :: "string \<Rightarrow> bool" where
  "is_token w = (w \<noteq> [] \<and> list_all (\<lambda>c. \<not> is_space c) w)"

text \<open>
  Section 4.1, the two normalizing steps, read off the text itself. Collapsing CRLF to
  LF: every character is looked at with the one after it, and a carriage return whose
  next character is a line feed is dropped. Collapsing the runs of line feeds: every
  character is looked at with the two before it (\<open>p1\<close> directly before, \<open>p2\<close> before
  that, none of them before the start of the text), and a line feed whose two
  predecessors are line feeds is dropped, so that of a run of line feeds the first two
  stay.
\<close>

definition with_next :: "'a list \<Rightarrow> ('a \<times> 'a option) list" where
  "with_next t = zip t (map Some (tl t) @ [None])"

definition crlf_to_lf :: "string \<Rightarrow> string" where
  "crlf_to_lf t = map fst (filter (\<lambda>(c, nx). \<not> (c = CR \<and> nx = Some LF)) (with_next t))"

definition with_two_before ::
  "'a option \<Rightarrow> 'a option \<Rightarrow> 'a list \<Rightarrow> ('a \<times> 'a option \<times> 'a option) list" where
  "with_two_before p1 p2 t = zip t (zip (p1 # map Some t) (p2 # p1 # map Some t))"

definition third_lf :: "char \<times> char option \<times> char option \<Rightarrow> bool" where
  "third_lf x = (case x of (c, p1, p2) \<Rightarrow> c = LF \<and> p1 = Some LF \<and> p2 = Some LF)"

definition collapse_lf_from :: "char option \<Rightarrow> char option \<Rightarrow> string \<Rightarrow> string" where
  "collapse_lf_from p1 p2 t = map fst (filter (\<lambda>x. \<not> third_lf x) (with_two_before p1 p2 t))"

definition collapse_lf_runs :: "string \<Rightarrow> string" where
  "collapse_lf_runs t = collapse_lf_from None None t"

text \<open>
  Section 4.1, by lines. \<^verbatim>\<open>split_lines\<close> is \<^verbatim>\<open>text.split('\n')\<close>. A closing line starts
  with one of the three closing words. The text is cut before the first line, after the
  first one, that is a closing line or that is \<^verbatim>\<open>--\<close> and has a line after it; the lines
  kept are joined again.
\<close>

fun split_lines :: "string \<Rightarrow> string list" where
  "split_lines [] = [[]]"
| "split_lines (c # cs) =
     (if c = LF then [] # split_lines cs
      else (case split_lines cs of [] \<Rightarrow> [[c]] | l # ls \<Rightarrow> (c # l) # ls))"

definition closing_line :: "string \<Rightarrow> bool" where
  "closing_line l = (prefix ''Regards,'' l \<or> prefix ''Best,'' l \<or> prefix ''Thanks,'' l)"

fun keep_until :: "string list \<Rightarrow> string list" where
  "keep_until [] = []"
| "keep_until (l # ls) =
     (if closing_line l \<or> (l = ''--'' \<and> ls \<noteq> []) then [] else l # keep_until ls)"

definition cut_at_boundary :: "string \<Rightarrow> string" where
  "cut_at_boundary t =
     (case split_lines t of [] \<Rightarrow> [] | l # ls \<Rightarrow> join [LF] (l # keep_until ls))"

text \<open>
  The cut as claim C7 words it: a boundary line counts wherever it stands, the first and
  the last line included.
\<close>

fun keep_until_claimed :: "string list \<Rightarrow> string list" where
  "keep_until_claimed [] = []"
| "keep_until_claimed (l # ls) =
     (if closing_line l \<or> l = ''--'' then [] else l # keep_until_claimed ls)"

definition claimed_clean_text :: "string \<Rightarrow> string" where
  "claimed_clean_text t =
     strip (join [LF] (keep_until_claimed (split_lines (sub_newlines (sub_crlf t)))))"

text \<open>
  Section 4.2: the total order low < medium < high on the urgency labels, as the list of
  its pairs.
\<close>

definition urgency_le :: "string \<Rightarrow> string \<Rightarrow> bool" where
  "urgency_le a b =
     ((a, b) \<in> set [(''low'', ''low''), (''low'', ''medium''), (''low'', ''high''),
                     (''medium'', ''medium''), (''medium'', ''high''), (''high'', ''high'')])"

section \<open>The rows of the table, one at a time\<close>

text \<open>
  What \<^verbatim>\<open>main\<close> computes for one row: the label a classifier returns, the input of the
  loop body, and the output row for a given summary and reply. \<open>main_rowwise\<close> below
  shows that the columns of \<^verbatim>\<open>main\<close> are these.
\<close>

definition label_of :: "error + string \<Rightarrow> string" where
  "label_of x = (case x of Inl e \<Rightarrow> [] | Inr l \<Rightarrow> l)"

definition likely_of :: "input_row \<Rightarrow> string" where
  "likely_of r =
     label_of (pick_urgency
       (label_of (detect_urgency (fillna (subject r))),
        label_of (detect_urgency (Str (clean_text (fillna (body r)))))))"

definition loop_input :: "input_row \<Rightarrow> pyval \<times> string \<times> string \<times> string" where
  "loop_input r =
     (sender r, clean_text (fillna (body r)),
      label_of (detect_topic (fillna (subject r))), likely_of r)"

definition derive :: "input_row \<Rightarrow> string \<times> string \<Rightarrow> enriched" where
  "derive r sr =
     \<lparr>sender = sender r, subject = fillna (subject r), body = fillna (body r),
      clean_body = clean_text (fillna (body r)),
      urg_subj = label_of (detect_urgency (fillna (subject r))),
      urg_body = label_of (detect_urgency (Str (clean_text (fillna (body r))))),
      likely_urgency = likely_of r,
      subject_topic = label_of (detect_topic (fillna (subject r))),
      sentiment = label_of (simple_sentiment (Str (clean_text (fillna (body r))))),
      summary = fst sr, auto_reply = snd sr\<rparr>"

text \<open>The table a run has written; empty when it wrote none.\<close>

definition table_of :: "(error + enriched list option) \<times> 'w \<Rightarrow> enriched list" where
  "table_of res = (case fst res of Inr (Some out) \<Rightarrow> out | _ \<Rightarrow> [])"

text \<open>The deterministic summary and reply of a row of the loop.\<close>

definition fallback :: "pyval \<times> string \<times> string \<times> string \<Rightarrow> string \<times> string" where
  "fallback row =
     (case row of (who, cb, tp, ur) \<Rightarrow>
        (summarize (Str cb) default_max_words,
         generate_reply [''sender'' \<mapsto> who, ''subject_topic'' \<mapsto> Str tp,
                         ''likely_urgency'' \<mapsto> Str ur]))"

text \<open>
  Three environments for concrete runs: a generator that answers from a script of
  outcomes, the world being what is left of the script, an environment without a key,
  and a generator that raises at every call.
\<close>

definition scripted :: "(error + response) list env" where
  "scripted =
     \<lparr>api_key = Some ''sk-test'', openai_model = None, openai_installed = True,
      create = (\<lambda>r w. case w of [] \<Rightarrow> (Inl (OtherException ''no answer''), [])
                                 | x # xs \<Rightarrow> (x, xs))\<rparr>"

definition no_key_env :: "unit env" where
  "no_key_env =
     \<lparr>api_key = None, openai_model = None, openai_installed = True,
      create = (\<lambda>r w. (Inr (Response [Str ''generated'']), w))\<rparr>"

definition failing_env :: "unit env" where
  "failing_env =
     \<lparr>api_key = Some ''sk-test'', openai_model = None, openai_installed = True,
      create = (\<lambda>r w. (Inl (OtherException ''quota''), w))\<rparr>"

text \<open>The row of the end-to-end example of section 8, and a row of the loop.\<close>

definition bob :: input_row where
  "bob = \<lparr>sender = Str ''Bob'', subject = Str ''URGENT: login issue'',
           body = Str ''I am blocked, please help, Regards, Bob''\<rparr>"

definition bob_loop :: "pyval \<times> string \<times> string \<times> string" where
  "bob_loop = (Str ''Bob'', ''I am blocked'', ''login/account'', ''high'')"


section \<open>Facts about the string operations\<close>

lemma contains_sublist: "contains k t = sublist k t"
  by (induction t) (auto simp: sublist_Cons_right)

lemma contains_iff: "contains k t \<longleftrightarrow> (\<exists>ps ss. t = ps @ k @ ss)"
  by (simp add: contains_sublist sublist_def)

lemma or_empty_Str: "or_empty (Str s) = Str s"
  by simp

lemma map_eq_appendD:
  assumes "map f xs = a @ b"
  shows "\<exists>us vs. xs = us @ vs \<and> map f us = a \<and> map f vs = b"
proof (intro exI conjI)
  show "xs = take (length a) xs @ drop (length a) xs" by simp
  show "map f (take (length a) xs) = a"
    using assms by (metis append_eq_conv_conj take_map)
  show "map f (drop (length a) xs) = b"
    using assms by (metis append_eq_conv_conj drop_map)
qed

text \<open>
  The code lowers the text and looks for the keyword, itself lower case: that is an
  occurrence up to case.
\<close>

lemma occurs_ci_iff: "occurs_ci k s \<longleftrightarrow> contains (lower k) (lower s)"
proof
  assume "occurs_ci k s"
  then obtain ps m ss where "s = ps @ m @ ss" "lower m = lower k"
    unfolding occurs_ci_def by blast
  then have "lower s = lower ps @ lower k @ lower ss"
    by (simp add: lower_def)
  then show "contains (lower k) (lower s)"
    unfolding contains_iff by blast
next
  assume "contains (lower k) (lower s)"
  then obtain a b where ab: "map lower_char s = a @ map lower_char k @ b"
    unfolding contains_iff lower_def by blast
  from map_eq_appendD [OF ab]
  obtain ps rest where 1: "s = ps @ rest" "map lower_char rest = map lower_char k @ b"
    by blast
  from map_eq_appendD [OF 1(2)]
  obtain m ss where 2: "rest = m @ ss" "map lower_char m = map lower_char k"
    by blast
  show "occurs_ci k s"
    unfolding occurs_ci_def lower_def using 1 2 by blast
qed

lemma lower_topic_keywords:
  "lower ''billing'' = ''billing''" "lower ''refund'' = ''refund''"
  "lower ''pricing'' = ''pricing''" "lower ''login'' = ''login''"
  "lower ''password'' = ''password''" "lower ''account'' = ''account''"
  "lower ''access'' = ''access''" "lower ''integration'' = ''integration''"
  "lower ''api'' = ''api''" "lower ''crm'' = ''crm''"
  "lower ''downtime'' = ''downtime''" "lower ''system'' = ''system''"
  "lower ''outage'' = ''outage''"
  by code_simp+

lemma detect_urgency_Str:
  "detect_urgency (Str s) =
     Inr (if list_ex (\<lambda>k. contains k (lower s))
               [''urgent'', ''critical'', ''immediate'', ''downtime'', ''blocked'']
          then ''high''
          else if list_ex (\<lambda>k. contains k (lower s))
               [''help'', ''support'', ''issue'', ''problem'', ''error'']
          then ''medium'' else ''low'')"
  unfolding detect_urgency_def or_empty_Str by simp

lemma detect_urgency_enum:
  "\<exists>l. detect_urgency (Str s) = Inr l \<and> l \<in> {''low'', ''medium'', ''high''}"
  unfolding detect_urgency_Str by simp

lemma detect_topic_enum:
  "\<exists>l. detect_topic (Str s) = Inr l \<and>
     l \<in> {''billing/refund'', ''login/account'', ''integration/api'', ''system/downtime'',
          ''general''}"
  unfolding detect_topic_def or_empty_Str by simp

lemma simple_sentiment_enum:
  "\<exists>l. simple_sentiment (Str s) = Inr l \<and> l \<in> {''positive'', ''negative'', ''neutral''}"
  unfolding simple_sentiment_def or_empty_Str by simp

lemma fillna_Str: "\<exists>s. fillna v = Str s"
  by (cases v) simp_all

subsection \<open>Splitting at whitespace and joining\<close>

lemma is_space_blank: "is_space (CHR '' '')"
  by code_simp

lemma is_space_LF: "is_space LF"
  by code_simp

lemma split_acc_tokens:
  "list_all (\<lambda>c. \<not> is_space c) acc \<Longrightarrow> list_all is_token (split_acc acc s)"
  by (induction s arbitrary: acc) (simp_all add: is_token_def)

lemma split_acc_concat:
  "concat (split_acc acc s) = rev acc @ filter (\<lambda>c. \<not> is_space c) s"
  by (induction s arbitrary: acc) auto

lemma split_ws_tokens: "list_all is_token (split_ws s)"
  unfolding split_ws_def by (rule split_acc_tokens) simp

lemma split_ws_concat: "concat (split_ws s) = filter (\<lambda>c. \<not> is_space c) s"
  unfolding split_ws_def by (simp add: split_acc_concat)

lemma split_acc_append:
  "list_all (\<lambda>c. \<not> is_space c) w \<Longrightarrow> split_acc acc (w @ rest) = split_acc (rev w @ acc) rest"
  by (induction w arbitrary: acc) auto

lemma split_ws_join: "list_all is_token ws \<Longrightarrow> split_ws (join '' '' ws) = ws"
proof (induction "'' ''" ws rule: join.induct)
  case 1
  then show ?case by (simp add: split_ws_def)
next
  case (2 w)
  then have "split_acc [] (w @ []) = split_acc (rev w @ []) []"
    by (intro split_acc_append) (simp add: is_token_def)
  with 2 show ?case by (simp add: split_ws_def is_token_def)
next
  case (3 w v ws)
  then have w: "w \<noteq> []" "list_all (\<lambda>c. \<not> is_space c) w" and rest: "list_all is_token (v # ws)"
    by (simp_all add: is_token_def)
  have "split_acc [] (w @ CHR '' '' # join '' '' (v # ws))
        = split_acc (rev w @ []) (CHR '' '' # join '' '' (v # ws))"
    by (rule split_acc_append) (rule w)
  also have "\<dots> = w # split_acc [] (join '' '' (v # ws))"
    using w by (simp add: is_space_blank)
  also have "\<dots> = w # v # ws"
    using 3(1) [OF rest] by (simp add: split_ws_def)
  finally show ?case by (simp add: split_ws_def)
qed

lemma join_no_space_char:
  "list_all is_token ws \<Longrightarrow> is_space c \<Longrightarrow> c \<noteq> CHR '' '' \<Longrightarrow> c \<notin> set (join '' '' ws)"
  by (induction "'' ''" ws rule: join.induct) (auto simp: is_token_def list_all_iff)

lemma contains_blanks_nospace:
  "list_all (\<lambda>c. \<not> is_space c) w \<Longrightarrow> \<not> contains ''  '' w"
  by (induction w) (auto simp: is_space_blank)

lemma contains_blanks_append:
  "list_all (\<lambda>c. \<not> is_space c) w \<Longrightarrow>
   contains ''  '' (w @ CHR '' '' # rest) \<longleftrightarrow> prefix '' '' rest \<or> contains ''  '' rest"
  by (induction w) (auto simp: is_space_blank)

lemma join_hd_token:
  "list_all is_token (v # ws) \<Longrightarrow> \<not> prefix '' '' (join '' '' (v # ws))"
  by (cases v; cases ws) (auto simp: is_token_def is_space_blank)

lemma join_no_double_blank:
  "list_all is_token ws \<Longrightarrow> \<not> contains ''  '' (join '' '' ws)"
proof (induction "'' ''" ws rule: join.induct)
  case 1
  then show ?case by simp
next
  case (2 w)
  then show ?case by (simp add: contains_blanks_nospace is_token_def)
next
  case (3 w v ws)
  then have w: "list_all (\<lambda>c. \<not> is_space c) w" and rest: "list_all is_token (v # ws)"
    by (simp_all add: is_token_def)
  show ?case
    using contains_blanks_append [OF w, of "join '' '' (v # ws)"] join_hd_token [OF rest]
      3(1) [OF rest]
    by simp
qed

lemma slice_to_take:
  "\<exists>k\<le>length xs. slice_to xs n = take k xs"
proof (cases "0 \<le> n")
  case True
  then have "slice_to xs n = take (min (nat n) (length xs)) xs"
    by (simp add: slice_to_def min_def)
  then show ?thesis by (intro exI [of _ "min (nat n) (length xs)"]) simp
next
  case False
  then have "slice_to xs n = take (length xs - nat (- n)) xs"
    by (simp add: slice_to_def)
  then show ?thesis by (intro exI [of _ "length xs - nat (- n)"]) simp
qed

lemma summarize_Str:
  "summarize (Str t) n =
     join '' '' (slice_to (split_ws t) n) @ (if n < int (length (split_ws t)) then ''...'' else [])"
  unfolding summarize_def or_empty_Str by (simp add: Let_def)

lemma summarize_short:
  assumes "int (length (split_ws t)) \<le> n"
  shows "summarize (Str t) n = join '' '' (split_ws t)"
proof -
  from assms have "0 \<le> n" "length (split_ws t) \<le> nat n" by linarith+
  then show ?thesis using assms by (simp add: summarize_Str slice_to_def)
qed

subsection \<open>Lines and boundary markers\<close>

lemma split_lines_nonempty: "split_lines t \<noteq> []"
  by (induction t) (auto split: list.splits)

lemma hd_split_lines: "hd (split_lines t) = takeWhile (\<lambda>c. c \<noteq> LF) t"
  by (induction t) (auto split: list.splits simp: split_lines_nonempty)

lemma tl_split_lines_Nil: "tl (split_lines t) = [] \<longleftrightarrow> LF \<notin> set t"
  by (induction t) (auto split: list.splits simp: split_lines_nonempty)

lemma prefix_takeWhile_line:
  "LF \<notin> set p \<Longrightarrow> prefix p t \<longleftrightarrow> prefix p (takeWhile (\<lambda>c. c \<noteq> LF) t)"
proof (induction t arbitrary: p)
  case Nil
  then show ?case by simp
next
  case (Cons c cs)
  then show ?case by (cases p) auto
qed

lemma closing_line_iff:
  "closing_line (hd (split_lines t)) \<longleftrightarrow>
     prefix ''Regards,'' t \<or> prefix ''Best,'' t \<or> prefix ''Thanks,'' t"
  unfolding closing_line_def hd_split_lines
  using prefix_takeWhile_line [of "''Regards,''" t] prefix_takeWhile_line [of "''Best,''" t]
    prefix_takeWhile_line [of "''Thanks,''" t]
  by simp

lemma dashes_prefix_iff:
  "takeWhile (\<lambda>c. c \<noteq> LF) t = ''--'' \<and> LF \<in> set t \<longleftrightarrow> prefix (''--'' @ [LF]) t"
proof (cases t)
  case Nil
  then show ?thesis by simp
next
  case (Cons a t1)
  show ?thesis
  proof (cases t1)
    case Nil
    with \<open>t = a # t1\<close> show ?thesis by auto
  next
    case (Cons b t2)
    show ?thesis
    proof (cases t2)
      case Nil
      with \<open>t = a # t1\<close> \<open>t1 = b # t2\<close> show ?thesis by auto
    next
      case (Cons c t3)
      with \<open>t = a # t1\<close> \<open>t1 = b # t2\<close> show ?thesis
        by (auto split: if_splits)
    qed
  qed
qed

lemma dashes_line_iff:
  "hd (split_lines t) = ''--'' \<and> tl (split_lines t) \<noteq> [] \<longleftrightarrow> prefix (''--'' @ [LF]) t"
  unfolding hd_split_lines tl_split_lines_Nil using dashes_prefix_iff [of t] by simp

lemma marker_at_iff:
  "find (\<lambda>m. prefix m (c # cs)) markers \<noteq> None \<longleftrightarrow>
     c = LF \<and> (closing_line (hd (split_lines cs)) \<or>
               (hd (split_lines cs) = ''--'' \<and> tl (split_lines cs) \<noteq> []))"
  unfolding closing_line_iff dashes_line_iff by (auto simp: markers_def)

lemma re_split_hd_acc: "hd (re_split alts acc t) = rev acc @ hd (re_split alts [] t)"
proof (induction t arbitrary: acc)
  case Nil
  then show ?case by simp
next
  case (Cons c cs)
  show ?case
  proof (cases "find (\<lambda>m. prefix m (c # cs)) alts")
    case None
    then show ?thesis
      using Cons [of "c # acc"] Cons [of "[c]"] by simp
  next
    case (Some m)
    then show ?thesis by simp
  qed
qed

lemma join_Cons_char: "join sep ((c # l) # ls) = c # join sep (l # ls)"
  by (cases ls) simp_all

lemma join_Nil_line: "join [LF] ([] # l # ls) = LF # join [LF] (l # ls)"
  by simp

lemma re_split_hd_lines: "hd (re_split markers [] t) = cut_at_boundary t"
proof (induction t)
  case Nil
  then show ?case by (simp add: cut_at_boundary_def)
next
  case (Cons c cs)
  obtain l ls where sl: "split_lines cs = l # ls"
    using split_lines_nonempty [of cs] by (cases "split_lines cs") auto
  have ih: "hd (re_split markers [] cs) = join [LF] (l # keep_until ls)"
    using Cons sl by (simp add: cut_at_boundary_def)
  show ?case
  proof (cases "find (\<lambda>m. prefix m (c # cs)) markers")
    case None
    then have nm: "\<not> (c = LF \<and> (closing_line l \<or> (l = ''--'' \<and> ls \<noteq> [])))"
      using marker_at_iff [of c cs] sl by simp
    have "hd (re_split markers [] (c # cs)) = c # join [LF] (l # keep_until ls)"
      using None re_split_hd_acc [of markers "[c]" cs] ih by simp
    moreover have "cut_at_boundary (c # cs) = c # join [LF] (l # keep_until ls)"
    proof (cases "c = LF")
      case True
      with nm sl show ?thesis by (simp add: cut_at_boundary_def)
    next
      case False
      with sl show ?thesis by (simp add: cut_at_boundary_def join_Cons_char)
    qed
    ultimately show ?thesis by simp
  next
    case (Some m)
    then have "c = LF \<and> (closing_line l \<or> (l = ''--'' \<and> ls \<noteq> []))"
      using marker_at_iff [of c cs] sl by simp
    then have "cut_at_boundary (c # cs) = []"
      using sl by (simp add: cut_at_boundary_def)
    with Some show ?thesis by simp
  qed
qed

subsection \<open>Line feeds and the ends of the text\<close>

lemma sub_newlines_Nil: "sub_newlines t = [] \<longleftrightarrow> t = []"
  by (induction t rule: sub_newlines.induct) auto

lemma hd_sub_newlines: "hd (sub_newlines t) = hd t"
  by (induction t rule: sub_newlines.induct) auto

lemma dropWhile_LF_hd: "dropWhile (\<lambda>c. c = LF) cs = [] \<or> hd (dropWhile (\<lambda>c. c = LF) cs) \<noteq> LF"
  using hd_dropWhile [of "\<lambda>c. c = LF" cs] by blast

lemma no_LF_start:
  "\<not> prefix [LF] (sub_newlines (dropWhile (\<lambda>c. c = LF) cs))"
proof -
  let ?d = "dropWhile (\<lambda>c. c = LF) cs"
  show ?thesis
  proof (cases "sub_newlines ?d")
    case Nil
    then show ?thesis by simp
  next
    case (Cons x xs)
    then have "?d \<noteq> []" using sub_newlines_Nil [of ?d] by auto
    then have "hd ?d \<noteq> LF" using dropWhile_LF_hd [of cs] by blast
    then have "x \<noteq> LF" using hd_sub_newlines [of ?d] Cons by simp
    with Cons show ?thesis by simp
  qed
qed

lemma sub_newlines_no_triple: "\<not> contains [LF, LF, LF] (sub_newlines t)"
proof (induction t rule: sub_newlines.induct)
  case (1 a b cs)
  show ?case
  proof (cases "a = LF \<and> b = LF")
    case True
    then show ?thesis
      using 1(1) no_LF_start [of cs] by (cases "sub_newlines (dropWhile (\<lambda>c. c = LF) cs)") auto
  next
    case False
    have "hd (sub_newlines (b # cs)) = b" by (simp only: hd_sub_newlines list.sel)
    moreover have "sub_newlines (b # cs) \<noteq> []" by (simp only: sub_newlines_Nil) simp
    ultimately obtain r where r: "sub_newlines (b # cs) = b # r"
      by (cases "sub_newlines (b # cs)") auto
    from False 1(2) show ?thesis
      unfolding sub_newlines.simps(1) [of a b cs] r by auto
  qed
qed simp_all

lemma sub_newlines_other: "filter (\<lambda>c. c \<noteq> LF) (sub_newlines t) = filter (\<lambda>c. c \<noteq> LF) t"
proof (induction t rule: sub_newlines.induct)
  case (1 a b cs)
  have "filter (\<lambda>c. c \<noteq> LF) (dropWhile (\<lambda>c. c = LF) cs) = filter (\<lambda>c. c \<noteq> LF) cs"
    by (induction cs) auto
  with 1 show ?case by auto
qed simp_all

lemma strip_ends:
  "strip s = [] \<or> (\<not> is_space (hd (strip s)) \<and> \<not> is_space (last (strip s)))"
proof (cases "strip s = []")
  case True
  then show ?thesis by simp
next
  case False
  let ?d = "dropWhile is_space s"
  let ?e = "dropWhile is_space (rev ?d)"
  from False have e: "?e \<noteq> []" by (simp add: strip_def)
  then have l: "\<not> is_space (hd ?e)" using hd_dropWhile by blast
  then have last: "\<not> is_space (last (strip s))"
    using e by (simp add: strip_def last_rev)
  from e have d: "?d \<noteq> []" by (metis dropWhile.simps(1) rev.simps(1))
  then have hdd: "\<not> is_space (hd ?d)" using hd_dropWhile by blast
  have "rev ?d = takeWhile is_space (rev ?d) @ ?e" by simp
  then have "?d = rev ?e @ rev (takeWhile is_space (rev ?d))"
    by (metis rev_append rev_rev_ident)
  then have "hd ?d = hd (rev ?e)" using e by (metis hd_append2 rev_is_Nil_conv)
  with hdd have "\<not> is_space (hd (strip s))" by (simp add: strip_def)
  with last show ?thesis by simp
qed

subsection \<open>The two normalizing steps of the code are those of the specification\<close>

lemma crlf_to_lf_simps:
  "crlf_to_lf [] = []" "crlf_to_lf [a] = [a]"
  "crlf_to_lf (a # b # cs) = (if a = CR \<and> b = LF then crlf_to_lf (b # cs) else a # crlf_to_lf (b # cs))"
  by (simp_all add: crlf_to_lf_def with_next_def)

lemma crlf_to_lf_LF: "crlf_to_lf (LF # cs) = LF # crlf_to_lf cs"
  by (cases cs) (simp_all add: crlf_to_lf_simps)

lemma sub_crlf_spec: "sub_crlf t = crlf_to_lf t"
proof (induction t rule: sub_crlf.induct)
  case (1 a b cs)
  then show ?case by (simp add: crlf_to_lf_simps crlf_to_lf_LF)
qed (simp_all add: crlf_to_lf_simps)

lemma collapse_lf_from_simps:
  "collapse_lf_from p1 p2 [] = []"
  "collapse_lf_from p1 p2 (c # cs) =
     (if c = LF \<and> p1 = Some LF \<and> p2 = Some LF then collapse_lf_from (Some c) p1 cs
      else c # collapse_lf_from (Some c) p1 cs)"
  by (simp_all add: collapse_lf_from_def with_two_before_def third_lf_def)

lemma sub_newlines_other_char: "a \<noteq> LF \<Longrightarrow> sub_newlines (a # cs) = a # sub_newlines cs"
  by (cases cs) simp_all

lemma sub_newlines_single_LF: "c \<noteq> LF \<Longrightarrow> sub_newlines (LF # c # cs) = LF # c # sub_newlines cs"
  by (simp add: sub_newlines_other_char)

lemma collapse_lf_from_sub_newlines:
  "(p1 \<noteq> Some LF \<longrightarrow> collapse_lf_from p1 p2 t = sub_newlines t) \<and>
   collapse_lf_from (Some LF) (Some LF) t = sub_newlines (dropWhile (\<lambda>c. c = LF) t) \<and>
   (p2 \<noteq> Some LF \<longrightarrow> LF # collapse_lf_from (Some LF) p2 t = sub_newlines (LF # t))"
proof (induction t arbitrary: p1 p2)
  case Nil
  then show ?case by (simp add: collapse_lf_from_simps)
next
  case (Cons c cs)
  note A = Cons [THEN conjunct1, rule_format]
  note B = Cons [THEN conjunct2, THEN conjunct1]
  note C = Cons [THEN conjunct2, THEN conjunct2, rule_format]
  show ?case
  proof (cases "c = LF")
    case True
    have a: "collapse_lf_from p1 p2 (c # cs) = sub_newlines (c # cs)" if "p1 \<noteq> Some LF"
      using that True C [of p1] by (simp add: collapse_lf_from_simps)
    have b: "collapse_lf_from (Some LF) (Some LF) (c # cs)
             = sub_newlines (dropWhile (\<lambda>c. c = LF) (c # cs))"
      using True B by (simp add: collapse_lf_from_simps)
    have c: "LF # collapse_lf_from (Some LF) p2 (c # cs) = sub_newlines (LF # c # cs)"
      if "p2 \<noteq> Some LF"
      using that True B by (simp add: collapse_lf_from_simps)
    from a b c show ?thesis by blast
  next
    case False
    have n: "Some c \<noteq> Some LF" using False by simp
    have a: "collapse_lf_from p1 p2 (c # cs) = sub_newlines (c # cs)" if "p1 \<noteq> Some LF"
      using False A [OF n] by (simp add: collapse_lf_from_simps sub_newlines_other_char)
    have b: "collapse_lf_from (Some LF) (Some LF) (c # cs)
             = sub_newlines (dropWhile (\<lambda>c. c = LF) (c # cs))"
      using False A [OF n] by (simp add: collapse_lf_from_simps sub_newlines_other_char)
    have c: "LF # collapse_lf_from (Some LF) p2 (c # cs) = sub_newlines (LF # c # cs)"
      if "p2 \<noteq> Some LF"
      using False A [OF n] by (simp add: collapse_lf_from_simps sub_newlines_other_char)
    from a b c show ?thesis by blast
  qed
qed

lemma sub_newlines_spec: "sub_newlines t = collapse_lf_runs t"
  unfolding collapse_lf_runs_def
  using collapse_lf_from_sub_newlines [of None None t] by simp

lemma strip_between:
  "\<exists>a b. s = a @ strip s @ b \<and> list_all is_space a \<and> list_all is_space b"
proof (intro exI conjI)
  let ?d = "dropWhile is_space s"
  have "rev ?d = takeWhile is_space (rev ?d) @ dropWhile is_space (rev ?d)" by simp
  then have "?d = rev (dropWhile is_space (rev ?d)) @ rev (takeWhile is_space (rev ?d))"
    by (metis rev_append rev_rev_ident)
  then have d: "?d = strip s @ rev (takeWhile is_space (rev ?d))"
    by (simp only: strip_def)
  have "s = takeWhile is_space s @ ?d" by simp
  with d show "s = takeWhile is_space s @ strip s @ rev (takeWhile is_space (rev ?d))"
    by simp
  show "list_all is_space (takeWhile is_space s)"
    by (simp add: list_all_iff) (meson set_takeWhileD)
  show "list_all is_space (rev (takeWhile is_space (rev ?d)))"
    by (simp add: list_all_iff) (meson set_takeWhileD)
qed


section \<open>The run as a map over the rows\<close>

lemma detect_urgency_label: "detect_urgency (Str s) = Inr (label_of (detect_urgency (Str s)))"
  using detect_urgency_enum [of s] by (auto simp: label_of_def)

lemma detect_topic_label: "detect_topic (Str s) = Inr (label_of (detect_topic (Str s)))"
  using detect_topic_enum [of s] by (auto simp: label_of_def)

lemma simple_sentiment_label:
  "simple_sentiment (Str s) = Inr (label_of (simple_sentiment (Str s)))"
  using simple_sentiment_enum [of s] by (auto simp: label_of_def)

lemma urgency_label_enum:
  "label_of (detect_urgency (Str s)) \<in> {''low'', ''medium'', ''high''}"
  using detect_urgency_enum [of s] by (auto simp: label_of_def)

lemma pick_urgency_enum:
  assumes "a \<in> {''low'', ''medium'', ''high''}" "b \<in> {''low'', ''medium'', ''high''}"
  shows "\<exists>m. pick_urgency (a, b) = Inr m \<and> (m = a \<or> m = b) \<and> urgency_le a m \<and> urgency_le b m"
  using assms by (auto simp: pick_urgency_def order_def urgency_le_def)

lemma pick_urgency_label:
  "pick_urgency (label_of (detect_urgency (Str s)), label_of (detect_urgency (Str t)))
     = Inr (label_of (pick_urgency
         (label_of (detect_urgency (Str s)), label_of (detect_urgency (Str t)))))"
  using pick_urgency_enum [OF urgency_label_enum [of s] urgency_label_enum [of t]]
  by (auto simp: label_of_def)

lemma apply_col_map:
  "(\<And>x. x \<in> set xs \<Longrightarrow> f (g x) = Inr (h x)) \<Longrightarrow> apply_col f (map g xs) = Inr (map h xs)"
  by (induction xs) simp_all

lemma zip_map_same: "zip (map f xs) (map g xs) = map (\<lambda>x. (f x, g x)) xs"
  by (induction xs) simp_all

lemma zip_map_fst: "zip (map f xs) ys = map (\<lambda>p. (f (fst p), snd p)) (zip xs ys)"
proof (induction xs arbitrary: ys)
  case Nil
  then show ?case by simp
next
  case (Cons x xs)
  then show ?case by (cases ys) simp_all
qed

lemma zip_map_zip:
  "zip (map f xs) (map g (zip xs ys)) = map (\<lambda>p. (f (fst p), g p)) (zip xs ys)"
proof (induction xs arbitrary: ys)
  case Nil
  then show ?case by simp
next
  case (Cons x xs)
  then show ?case by (cases ys) simp_all
qed

lemma apply_rows_nonempty: "xs \<noteq> [] \<Longrightarrow> apply_rows f xs = apply_col f xs"
  by (cases xs) simp_all

lemma main_rowwise:
  assumes "df \<noteq> []"
  shows "main env (Some df) w =
     (case iterrows env (map loop_input df) w of
        (srs, w') \<Rightarrow> (Inr (Some (map (\<lambda>p. derive (fst p) (snd p)) (zip df srs))), w'))"
proof -
  let ?fill = "\<lambda>r. r\<lparr>subject := fillna (subject r), body := fillna (body r)\<rparr>"
  let ?cb = "\<lambda>r. clean_text (fillna (body r))"
  let ?us = "\<lambda>r. label_of (detect_urgency (fillna (subject r)))"
  let ?ub = "\<lambda>r. label_of (detect_urgency (Str (?cb r)))"
  let ?tp = "\<lambda>r. label_of (detect_topic (fillna (subject r)))"
  let ?se = "\<lambda>r. label_of (simple_sentiment (Str (?cb r)))"
  have subj: "map subject (map ?fill df) = map (\<lambda>r. fillna (subject r)) df"
    by simp
  have snd_col: "map sender (map ?fill df) = map sender df"
    by simp
  have cbs: "map (\<lambda>r. clean_text (body r)) (map ?fill df) = map ?cb df"
    by simp
  have us: "apply_col detect_urgency (map (\<lambda>r. fillna (subject r)) df) = Inr (map ?us df)"
    by (rule apply_col_map) (use fillna_Str detect_urgency_label in metis)
  have ub: "apply_col detect_urgency (map Str (map ?cb df)) = Inr (map ?ub df)"
    unfolding map_map o_def by (rule apply_col_map) (rule detect_urgency_label)
  have pk: "apply_col pick_urgency (zip (map ?us df) (map ?ub df)) = Inr (map likely_of df)"
    unfolding zip_map_same likely_of_def
    by (rule apply_col_map) (use fillna_Str pick_urgency_label in metis)
  have "zip (map ?us df) (map ?ub df) \<noteq> []"
    using assms by (cases df) simp_all
  from apply_rows_nonempty [OF this, of pick_urgency] pk
  have lu: "apply_rows pick_urgency (zip (map ?us df) (map ?ub df)) = Inr (map likely_of df)"
    by (rule trans)
  have tp: "apply_col detect_topic (map (\<lambda>r. fillna (subject r)) df) = Inr (map ?tp df)"
    by (rule apply_col_map) (use fillna_Str detect_topic_label in metis)
  have se: "apply_col simple_sentiment (map Str (map ?cb df)) = Inr (map ?se df)"
    unfolding map_map o_def by (rule apply_col_map) (rule simple_sentiment_label)
  have rows: "zip (map sender df) (zip (map ?cb df) (zip (map ?tp df) (map likely_of df)))
              = map loop_input df"
    by (simp add: zip_map_same loop_input_def)
  have out: "map assemble
               (zip (map ?fill df) (zip (map ?cb df) (zip (map ?us df) (zip (map ?ub df)
                 (zip (map likely_of df) (zip (map ?tp df) (zip (map ?se df) srs)))))))
             = map (\<lambda>p. derive (fst p) (snd p)) (zip df srs)" for srs
    by (simp add: zip_map_fst [of _ df srs] zip_map_zip assemble_def derive_def split_def)
  show ?thesis
    unfolding main_def Let_def option.case subj snd_col cbs us ub lu tp se sum.case rows out
    by (simp add: split_def)
qed

lemma iterrows_length: "length (fst (iterrows env rows w)) = length rows"
  by (induction rows arbitrary: w) (simp_all add: split_def)

lemma iterrows_rows:
  "list_all2 (\<lambda>row sr. \<exists>wi wi'. summary_and_reply env row wi = (sr, wi'))
     rows (fst (iterrows env rows w))"
proof (induction rows arbitrary: w)
  case Nil
  then show ?case by simp
next
  case (Cons row rows)
  obtain sr w1 where 1: "summary_and_reply env row w = (sr, w1)"
    by (cases "summary_and_reply env row w")
  have "fst (iterrows env (row # rows) w) = sr # fst (iterrows env rows w1)"
    using 1 by (simp add: split_def)
  with 1 Cons [of w1] show ?case by auto
qed

lemma derive_fields:
  "(sender (derive r sr), clean_body (derive r sr), subject_topic (derive r sr),
    likely_urgency (derive r sr)) = loop_input r"
  "(summary (derive r sr), auto_reply (derive r sr)) = sr"
  by (simp_all add: derive_def loop_input_def)

lemma main_list_all2:
  assumes "df \<noteq> []"
    and "\<And>r sr wi wi'. summary_and_reply env (loop_input r) wi = (sr, wi') \<Longrightarrow> R r (derive r sr)"
  shows "\<exists>out w'. main env (Some df) w = (Inr (Some out), w') \<and> list_all2 R df out"
proof -
  let ?srs = "fst (iterrows env (map loop_input df) w)"
  let ?out = "map (\<lambda>p. derive (fst p) (snd p)) (zip df ?srs)"
  have len: "length ?srs = length df"
    by (simp add: iterrows_length)
  have rows: "list_all2 (\<lambda>row sr. \<exists>wi wi'. summary_and_reply env row wi = (sr, wi'))
     (map loop_input df) ?srs"
    by (rule iterrows_rows)
  have "list_all2 R df ?out"
  proof (rule list_all2_all_nthI)
    show "length df = length ?out" using len by simp
  next
    fix n assume n: "n < length df"
    from rows n len obtain wi wi'
      where "summary_and_reply env (loop_input (df ! n)) wi = (?srs ! n, wi')"
      by (auto simp: list_all2_conv_all_nth)
    from assms(2) [OF this] show "R (df ! n) (?out ! n)"
      using n len by simp
  qed
  moreover have "main env (Some df) w = (Inr (Some ?out), snd (iterrows env (map loop_input df) w))"
    unfolding main_rowwise [OF assms(1)] by (simp add: split_def)
  ultimately show ?thesis by blast
qed

lemma main_single:
  "\<exists>sr w'. summary_and_reply env (loop_input r) w = (sr, w') \<and>
     main env (Some [r]) w = (Inr (Some [derive r sr]), w')"
proof -
  obtain sr w' where "summary_and_reply env (loop_input r) w = (sr, w')"
    by (cases "summary_and_reply env (loop_input r) w")
  then show ?thesis using main_rowwise [of "[r]" env w] by simp
qed

subsection \<open>The external generator in the loop body\<close>

lemma try_openai_unavailable:
  "api_key env = None \<or> api_key env = Some [] \<or> \<not> openai_installed env \<Longrightarrow>
   try_openai_summary_and_reply env cb w = ((None, None), w)"
  by (auto simp: try_openai_summary_and_reply_def split: option.splits)

lemma try_openai_available:
  "api_key env = Some k \<Longrightarrow> k \<noteq> [] \<Longrightarrow> openai_installed env \<Longrightarrow>
   try_openai_summary_and_reply env cb w =
     (case create env (summary_request env cb) w of
        (Inl e, w1) \<Rightarrow> ((None, None), w1)
      | (Inr resp, w1) \<Rightarrow>
          (case first_choice_text resp of
             Inl e \<Rightarrow> ((None, None), w1)
           | Inr sm \<Rightarrow>
               (case create env (reply_request env cb) w1 of
                  (Inl e, w2) \<Rightarrow> ((None, None), w2)
                | (Inr resp2, w2) \<Rightarrow>
                    (case first_choice_text resp2 of
                       Inl e \<Rightarrow> ((None, None), w2)
                     | Inr rp \<Rightarrow> ((sm, rp), w2)))))"
  by (simp add: try_openai_summary_and_reply_def)

lemma summary_and_reply_of_try:
  "try_openai_summary_and_reply env cb w = ((so, ro), w') \<Longrightarrow>
   summary_and_reply env (who, cb, tp, ur) w =
     ((case so of None \<Rightarrow> fst (fallback (who, cb, tp, ur)) | Some s \<Rightarrow> s,
       case ro of None \<Rightarrow> snd (fallback (who, cb, tp, ur)) | Some s \<Rightarrow> s), w')"
  by (simp add: summary_and_reply_def fallback_def split: option.splits)

lemma summary_and_reply_none:
  "try_openai_summary_and_reply env cb w = ((None, None), w') \<Longrightarrow>
   summary_and_reply env (who, cb, tp, ur) w = (fallback (who, cb, tp, ur), w')"
  by (simp add: summary_and_reply_def fallback_def)

lemma try_openai_always_raises:
  assumes "\<forall>req wi. \<exists>e wi'. create env req wi = (Inl e, wi')"
  shows "\<exists>w'. try_openai_summary_and_reply env cb w = ((None, None), w')"
proof -
  from assms obtain e w1 where "create env (summary_request env cb) w = (Inl e, w1)"
    by blast
  then show ?thesis
    by (auto simp: try_openai_summary_and_reply_def split: option.splits)
qed


section \<open>Classifiers: totality, defaults and the topic priority\<close>

text \<open>
  Claim C3. On every string each of the three classifiers returns, without an
  exception, a label of its enumeration: low, medium or high for the urgency; one of
  the four topics or general; positive, negative or neutral for the sentiment. On the
  empty string they return low, general and neutral.
\<close>

theorem classifiers_total:
  "(\<exists>l. detect_urgency (Str s) = Inr l \<and> l \<in> {''low'', ''medium'', ''high''}) \<and>
   (\<exists>l. detect_topic (Str s) = Inr l \<and>
        l \<in> {''billing/refund'', ''login/account'', ''integration/api'', ''system/downtime'',
             ''general''}) \<and>
   (\<exists>l. simple_sentiment (Str s) = Inr l \<and> l \<in> {''positive'', ''negative'', ''neutral''}) \<and>
   detect_urgency (Str []) = Inr ''low'' \<and>
   detect_topic (Str []) = Inr ''general'' \<and>
   simple_sentiment (Str []) = Inr ''neutral''"
proof (intro conjI)
  show "detect_urgency (Str []) = Inr ''low''"
    by (simp add: detect_urgency_def lower_def)
  show "detect_topic (Str []) = Inr ''general''"
    by (simp add: detect_topic_def lower_def)
  show "simple_sentiment (Str []) = Inr ''neutral''"
    by (simp add: simple_sentiment_def lower_def)
qed (rule detect_urgency_enum detect_topic_enum simple_sentiment_enum)+

text \<open>
  Claim C4. The topic classifier returns the label of the first of the four keyword
  groups, taken in the order billing/refund, login/account, integration/api,
  system/downtime, that has a keyword occurring in the text up to case, and general
  when no group has one. A text in which both billing and login occur is labelled
  billing/refund.
\<close>

theorem topic_first_matching_group:
  "detect_topic (Str s) = Inr (first_group topic_groups ''general'' s) \<and>
   (occurs_ci ''billing'' s \<and> occurs_ci ''login'' s \<longrightarrow>
      detect_topic (Str s) = Inr ''billing/refund'')"
  by (simp add: detect_topic_def topic_groups_def occurs_ci_iff lower_topic_keywords)

theorem topic_first_matching_group_witness:
  "occurs_ci ''billing'' ''Billing query: cannot LOGIN'' \<and>
   occurs_ci ''login'' ''Billing query: cannot LOGIN'' \<and>
   detect_topic (Str ''Billing query: cannot LOGIN'') = Inr ''billing/refund''"
proof -
  have l: "lower ''Billing query: cannot LOGIN'' = ''billing query: cannot login''"
    by code_simp
  have h1: "occurs_ci ''billing'' ''Billing query: cannot LOGIN''"
    unfolding occurs_ci_iff l lower_topic_keywords by simp
  have h2: "occurs_ci ''login'' ''Billing query: cannot LOGIN''"
    unfolding occurs_ci_iff l lower_topic_keywords by simp
  from h1 h2 topic_first_matching_group [of "''Billing query: cannot LOGIN''"]
  show ?thesis by blast
qed

section \<open>Reply templates\<close>

text \<open>
  Claim C5. For every sender, topic and urgency, the reply generated for a row with
  these three entries is the high template of section 6 when the urgency is high, the
  medium template when it is medium, and the default template for any other urgency,
  with sender and topic put in. For high, Alice and billing/refund it is the text of
  the high template with these two names in it.
\<close>

theorem reply_templates:
  "generate_reply [''sender'' \<mapsto> Str who, ''subject_topic'' \<mapsto> Str what,
                   ''likely_urgency'' \<mapsto> Str urg] =
     (if urg = ''high'' then template_high who what
      else if urg = ''medium'' then template_medium who what
      else template_low who what) \<and>
   generate_reply [''sender'' \<mapsto> Str ''Alice'', ''subject_topic'' \<mapsto> Str ''billing/refund'',
                   ''likely_urgency'' \<mapsto> Str ''high''] =
     ''Dear Alice,\<newline>\<newline>We understand your issue is urgent regarding billing/refund. Our team is already working on it and will update you shortly.\<newline>\<newline>Best regards,\<newline>Support Team''"
  by (simp add: generate_reply_def dict_get_def template_high_def template_medium_def
      template_low_def)

section \<open>Summarizer\<close>

text \<open>
  Claim C6, as amended. For a bound that is not negative, the summary is the first
  \<open>max_words\<close> tokens of the whitespace split, joined by single spaces, with the three
  dots put directly behind the last kept token (no space before them) exactly when there
  are more tokens than the bound. The tokens are non-empty, free of whitespace, and
  together the non-space characters of the text in order. The empty text and \<^verbatim>\<open>None\<close> give
  the empty summary. \<^verbatim>\<open>summarize("a b c", 5)\<close> is \<^verbatim>\<open>"a b c"\<close> and
  \<^verbatim>\<open>summarize("a b c d e f", 5)\<close> is \<^verbatim>\<open>"a b c d e..."\<close>.
\<close>

theorem summarize_first_words:
  "0 \<le> n \<Longrightarrow>
   summarize (Str t) n =
     join '' '' (take (nat n) (split_ws t))
     @ (if n < int (length (split_ws t)) then ''...'' else []) \<and>
   list_all is_token (split_ws t) \<and>
   concat (split_ws t) = filter (\<lambda>c. \<not> is_space c) t \<and>
   summarize (Str []) n = [] \<and> summarize PyNone n = [] \<and>
   summarize (Str ''a b c'') 5 = ''a b c'' \<and>
   summarize (Str ''a b c d e f'') 5 = ''a b c d e...''"
proof (intro conjI)
  assume n: "0 \<le> n"
  then show "summarize (Str t) n =
     join '' '' (take (nat n) (split_ws t))
     @ (if n < int (length (split_ws t)) then ''...'' else [])"
    by (simp add: summarize_Str slice_to_def)
  show "list_all is_token (split_ws t)"
    by (rule split_ws_tokens)
  show "concat (split_ws t) = filter (\<lambda>c. \<not> is_space c) t"
    by (rule split_ws_concat)
  from n show "summarize (Str []) n = []"
    by (simp add: summarize_def split_ws_def slice_to_def)
  from n show "summarize PyNone n = []"
    by (simp add: summarize_def split_ws_def slice_to_def)
  show "summarize (Str ''a b c'') 5 = ''a b c''"
    by code_simp
  show "summarize (Str ''a b c d e f'') 5 = ''a b c d e...''"
    by code_simp
qed

theorem summarize_first_words_witness:
  "(0::int) \<le> 2 \<and> summarize (Str ''a b c'') 2 = ''a b...''"
proof -
  have sp: "split_ws ''a b c'' = [''a'', ''b'', ''c'']"
    by code_simp
  have h: "(0::int) \<le> 2" by simp
  from summarize_first_words [OF h, of "''a b c''"]
  have "summarize (Str ''a b c'') 2 =
     join '' '' (take (nat 2) (split_ws ''a b c''))
     @ (if 2 < int (length (split_ws ''a b c'')) then ''...'' else [])"
    by blast
  then show ?thesis by (simp add: sp)
qed

text \<open>
  Claim C6 as stated fails: the summary of \<^verbatim>\<open>"a b c d e f"\<close> with bound 5 has no space
  before the dots, and with a negative bound the empty text gives the dots.
\<close>

theorem summarize_ellipsis_counterexample:
  "summarize (Str ''a b c d e f'') 5 \<noteq> ''a b c d e ...'' \<and> summarize (Str []) (- 1) \<noteq> []"
  by code_simp

text \<open>
  Claim C10. For every text and bound the summary is a prefix of the list of tokens
  joined by single spaces, followed by the dots exactly when there are more tokens than
  the bound. When nothing is cut (the bound is at least the number of tokens) the summary
  is all tokens joined by single spaces, summarizing it again changes nothing, and a
  text with a line feed or with two spaces in a row is not its own summary.
\<close>

theorem summarize_idempotent:
  "(\<exists>k\<le>length (split_ws t).
      summarize (Str t) n =
        join '' '' (take k (split_ws t))
        @ (if n < int (length (split_ws t)) then ''...'' else [])) \<and>
   (int (length (split_ws t)) \<le> n \<longrightarrow>
      summarize (Str t) n = join '' '' (split_ws t) \<and>
      summarize (Str (summarize (Str t) n)) n = summarize (Str t) n \<and>
      (LF \<in> set t \<or> contains ''  '' t \<longrightarrow> summarize (Str t) n \<noteq> t))"
proof (intro conjI impI)
  show "\<exists>k\<le>length (split_ws t).
      summarize (Str t) n =
        join '' '' (take k (split_ws t))
        @ (if n < int (length (split_ws t)) then ''...'' else [])"
    using slice_to_take [of "split_ws t" n] unfolding summarize_Str by auto
next
  assume short: "int (length (split_ws t)) \<le> n"
  show eq: "summarize (Str t) n = join '' '' (split_ws t)"
    by (rule summarize_short [OF short])
  have again: "split_ws (summarize (Str t) n) = split_ws t"
    unfolding eq by (rule split_ws_join [OF split_ws_tokens])
  have "int (length (split_ws (summarize (Str t) n))) \<le> n"
    unfolding again by (rule short)
  then have "summarize (Str (summarize (Str t) n)) n
             = join '' '' (split_ws (summarize (Str t) n))"
    by (rule summarize_short)
  also have "\<dots> = join '' '' (split_ws t)"
    by (simp only: again)
  finally show "summarize (Str (summarize (Str t) n)) n = summarize (Str t) n"
    by (simp only: eq)
  assume "LF \<in> set t \<or> contains ''  '' t"
  then show "summarize (Str t) n \<noteq> t"
  proof
    assume "LF \<in> set t"
    moreover have "LF \<notin> set (join '' '' (split_ws t))"
      by (rule join_no_space_char [OF split_ws_tokens is_space_LF]) simp
    ultimately show ?thesis unfolding eq by metis
  next
    assume "contains ''  '' t"
    moreover have "\<not> contains ''  '' (join '' '' (split_ws t))"
      by (rule join_no_double_blank [OF split_ws_tokens])
    ultimately show ?thesis unfolding eq by metis
  qed
qed


theorem summarize_idempotent_witness:
  "int (length (split_ws ''a\<newline>b  c'')) \<le> 5 \<and> LF \<in> set ''a\<newline>b  c'' \<and>
   summarize (Str ''a\<newline>b  c'') 5 = ''a b c'' \<and>
   summarize (Str (summarize (Str ''a\<newline>b  c'') 5)) 5 = summarize (Str ''a\<newline>b  c'') 5 \<and>
   summarize (Str ''a\<newline>b  c'') 5 \<noteq> ''a\<newline>b  c''"
proof -
  have sp: "split_ws ''a\<newline>b  c'' = [''a'', ''b'', ''c'']"
    by code_simp
  have h: "int (length (split_ws ''a\<newline>b  c'')) \<le> 5"
    by (simp add: sp)
  have l: "LF \<in> set ''a\<newline>b  c''"
    by simp
  from summarize_idempotent [of "''a\<newline>b  c''" 5] h l
  have "summarize (Str ''a\<newline>b  c'') 5 = join '' '' (split_ws ''a\<newline>b  c'')"
    and "summarize (Str (summarize (Str ''a\<newline>b  c'') 5)) 5 = summarize (Str ''a\<newline>b  c'') 5"
    and "summarize (Str ''a\<newline>b  c'') 5 \<noteq> ''a\<newline>b  c''"
    by blast+
  with h l show ?thesis by (simp add: sp)
qed


section \<open>Text normalizer\<close>

text \<open>
  Claim C7, as amended. For every body string the normalizer drops every carriage
  return that stands directly before a line feed, then drops every line feed that has
  two line feeds directly before it (so a run of two or more line feeds becomes exactly
  two, no three in a row remain and the other characters stay), cuts the text before
  the first boundary line and trims whitespace from both ends: what is cut off at the
  two ends is whitespace only, and the result neither starts nor ends with whitespace.
  A boundary line is a line after the first that starts with \<^verbatim>\<open>Regards,\<close>, \<^verbatim>\<open>Best,\<close> or
  \<^verbatim>\<open>Thanks,\<close>, or a line after the first that is \<^verbatim>\<open>--\<close> and is followed by a line feed;
  the first line is never one, and a last line \<^verbatim>\<open>--\<close> with nothing behind it is not one.
  A missing body gives the empty string. The example of section 8 gives its two lines;
  a text with two CRLF pairs gives two line feeds; of a doubled carriage return before
  a line feed one stays; a single line feed and a pair of line feeds stay as they are;
  runs of four and of three line feeds become two.
\<close>

theorem clean_text_cuts_at_boundary:
  "clean_text (Str t) = strip (cut_at_boundary (collapse_lf_runs (crlf_to_lf t))) \<and>
   (\<exists>a b. cut_at_boundary (collapse_lf_runs (crlf_to_lf t)) = a @ clean_text (Str t) @ b \<and>
          list_all is_space a \<and> list_all is_space b) \<and>
   (clean_text (Str t) = [] \<or>
      \<not> is_space (hd (clean_text (Str t))) \<and> \<not> is_space (last (clean_text (Str t)))) \<and>
   \<not> contains [LF, LF, LF] (collapse_lf_runs (crlf_to_lf t)) \<and>
   filter (\<lambda>c. c \<noteq> LF) (collapse_lf_runs (crlf_to_lf t)) = filter (\<lambda>c. c \<noteq> LF) (crlf_to_lf t) \<and>
   clean_text NaN = [] \<and>
   clean_text (Str ''Hello\<newline>\<newline>Please help\<newline>Regards,\<newline>John'')
     = ''Hello\<newline>\<newline>Please help'' \<and>
   clean_text (Str [CHR ''a'', CR, LF, CR, LF, CHR ''b'']) = ''a\<newline>\<newline>b'' \<and>
   clean_text (Str [CHR ''a'', CR, CR, LF, CHR ''b'', CR]) = [CHR ''a'', CR, LF, CHR ''b''] \<and>
   clean_text (Str ''a\<newline>b'') = ''a\<newline>b'' \<and>
   clean_text (Str ''a\<newline>\<newline>b'') = ''a\<newline>\<newline>b'' \<and>
   clean_text (Str ''a\<newline>\<newline>\<newline>\<newline>b\<newline>\<newline>\<newline>c'') = ''a\<newline>\<newline>b\<newline>\<newline>c'' \<and>
   clean_text (Str '' \<newline> Hi there \<newline>Best, Ann'') = ''Hi there''"
proof (intro conjI)
  have ct: "clean_text (Str t) = strip (cut_at_boundary (collapse_lf_runs (crlf_to_lf t)))"
    by (simp add: re_split_hd_lines sub_crlf_spec sub_newlines_spec)
  show "clean_text (Str t) = strip (cut_at_boundary (collapse_lf_runs (crlf_to_lf t)))"
    by (rule ct)
  show "\<exists>a b. cut_at_boundary (collapse_lf_runs (crlf_to_lf t)) = a @ clean_text (Str t) @ b \<and>
          list_all is_space a \<and> list_all is_space b"
    unfolding ct by (rule strip_between)
  show "clean_text (Str t) = [] \<or>
      \<not> is_space (hd (clean_text (Str t))) \<and> \<not> is_space (last (clean_text (Str t)))"
    unfolding ct by (rule strip_ends)
  show "\<not> contains [LF, LF, LF] (collapse_lf_runs (crlf_to_lf t))"
    unfolding sub_newlines_spec [symmetric] by (rule sub_newlines_no_triple)
  show "filter (\<lambda>c. c \<noteq> LF) (collapse_lf_runs (crlf_to_lf t)) = filter (\<lambda>c. c \<noteq> LF) (crlf_to_lf t)"
    unfolding sub_newlines_spec [symmetric] by (rule sub_newlines_other)
  show "clean_text NaN = []" by simp
  show "clean_text (Str ''Hello\<newline>\<newline>Please help\<newline>Regards,\<newline>John'')
     = ''Hello\<newline>\<newline>Please help''"
    by code_simp
  show "clean_text (Str [CHR ''a'', CR, LF, CR, LF, CHR ''b'']) = ''a\<newline>\<newline>b''"
    by code_simp
  show "clean_text (Str [CHR ''a'', CR, CR, LF, CHR ''b'', CR]) = [CHR ''a'', CR, LF, CHR ''b'']"
    by code_simp
  show "clean_text (Str ''a\<newline>b'') = ''a\<newline>b''"
    by code_simp
  show "clean_text (Str ''a\<newline>\<newline>b'') = ''a\<newline>\<newline>b''"
    by code_simp
  show "clean_text (Str ''a\<newline>\<newline>\<newline>\<newline>b\<newline>\<newline>\<newline>c'') = ''a\<newline>\<newline>b\<newline>\<newline>c''"
    by code_simp
  show "clean_text (Str '' \<newline> Hi there \<newline>Best, Ann'') = ''Hi there''"
    by code_simp
qed

text \<open>
  Claim C7 as stated fails where the boundary line is the first line of the text, and
  where a line \<^verbatim>\<open>--\<close> is the last one: the code keeps both texts whole, the claim cuts
  them.
\<close>

theorem clean_text_first_last_line_counterexample:
  "clean_text (Str ''Regards,\<newline>John'') = ''Regards,\<newline>John'' \<and>
   claimed_clean_text ''Regards,\<newline>John'' = [] \<and>
   clean_text (Str ''Hi\<newline>--'') = ''Hi\<newline>--'' \<and>
   claimed_clean_text ''Hi\<newline>--'' = ''Hi''"
  by code_simp


section \<open>Urgency of a row\<close>

text \<open>
  Claim C1. Every run on a table with rows writes a table in which, row by row, the
  urgency of the subject and the urgency of the cleaned body are what the urgency
  classifier returns on them, and \<open>likely_urgency\<close> is one of the two and not lower than
  either in the order low < medium < high, that is their maximum. For the subject
  hello and the body this is urgent the three columns are low, high and high.
\<close>

theorem likely_urgency_is_max:
  "(df \<noteq> [] \<longrightarrow>
      (\<exists>out w'. main env (Some df) w = (Inr (Some out), w') \<and>
      list_all2 (\<lambda>r x.
          clean_body x = clean_text (fillna (body r)) \<and>
          detect_urgency (fillna (subject r)) = Inr (urg_subj x) \<and>
          detect_urgency (Str (clean_body x)) = Inr (urg_body x) \<and>
          likely_urgency x \<in> {urg_subj x, urg_body x} \<and>
          urgency_le (urg_subj x) (likely_urgency x) \<and>
          urgency_le (urg_body x) (likely_urgency x)) df out)) \<and>
   (\<exists>out w'. main env (Some [\<lparr>sender = who, subject = Str ''hello'',
                               body = Str ''this is urgent''\<rparr>]) w = (Inr (Some out), w') \<and>
      map urg_subj out = [''low''] \<and> map urg_body out = [''high''] \<and>
      map likely_urgency out = [''high''])"
proof (intro conjI impI)
  assume ne: "df \<noteq> []"
  show "\<exists>out w'. main env (Some df) w = (Inr (Some out), w') \<and>
      list_all2 (\<lambda>r x.
          clean_body x = clean_text (fillna (body r)) \<and>
          detect_urgency (fillna (subject r)) = Inr (urg_subj x) \<and>
          detect_urgency (Str (clean_body x)) = Inr (urg_body x) \<and>
          likely_urgency x \<in> {urg_subj x, urg_body x} \<and>
          urgency_le (urg_subj x) (likely_urgency x) \<and>
          urgency_le (urg_body x) (likely_urgency x)) df out"
  proof (rule main_list_all2 [OF ne])
    fix r :: input_row and sr :: "string \<times> string"
    obtain s where s: "fillna (subject r) = Str s"
      using fillna_Str by blast
    let ?cb = "clean_text (fillna (body r))"
    let ?a = "label_of (detect_urgency (Str s))"
    let ?b = "label_of (detect_urgency (Str ?cb))"
    from pick_urgency_enum [OF urgency_label_enum [of s] urgency_label_enum [of ?cb]]
    obtain m where m: "pick_urgency (?a, ?b) = Inr m" "m = ?a \<or> m = ?b"
      "urgency_le ?a m" "urgency_le ?b m"
      by blast
    have lk: "likely_urgency (derive r sr) = m"
      using m(1) s by (simp add: derive_def likely_of_def label_of_def)
    have us: "urg_subj (derive r sr) = ?a" and ub: "urg_body (derive r sr) = ?b"
      and cb: "clean_body (derive r sr) = ?cb"
      using s by (simp_all add: derive_def)
    show "clean_body (derive r sr) = clean_text (fillna (body r)) \<and>
          detect_urgency (fillna (subject r)) = Inr (urg_subj (derive r sr)) \<and>
          detect_urgency (Str (clean_body (derive r sr))) = Inr (urg_body (derive r sr)) \<and>
          likely_urgency (derive r sr) \<in> {urg_subj (derive r sr), urg_body (derive r sr)} \<and>
          urgency_le (urg_subj (derive r sr)) (likely_urgency (derive r sr)) \<and>
          urgency_le (urg_body (derive r sr)) (likely_urgency (derive r sr))"
      unfolding lk us ub cb s using m detect_urgency_label by auto
  qed
next
  let ?r = "\<lparr>sender = who, subject = Str ''hello'', body = Str ''this is urgent''\<rparr>"
  have a: "detect_urgency (Str ''hello'') = Inr ''low''"
    by code_simp
  have c: "clean_text (Str ''this is urgent'') = ''this is urgent''"
    by code_simp
  have b: "detect_urgency (Str ''this is urgent'') = Inr ''high''"
    by code_simp
  have p: "pick_urgency (''low'', ''high'') = Inr ''high''"
    by (simp add: pick_urgency_def order_def)
  from main_single [of env ?r w]
  obtain sr w' where m: "main env (Some [?r]) w = (Inr (Some [derive ?r sr]), w')"
    by blast
  have f: "map urg_subj [derive ?r sr] = [''low'']" "map urg_body [derive ?r sr] = [''high'']"
    "map likely_urgency [derive ?r sr] = [''high'']"
    by (simp_all add: derive_def likely_of_def label_of_def a b c p del: clean_text.simps)
  show "\<exists>out w'. main env (Some [?r]) w = (Inr (Some out), w') \<and>
      map urg_subj out = [''low''] \<and> map urg_body out = [''high''] \<and>
      map likely_urgency out = [''high'']"
    by (intro exI [of _ "[derive ?r sr]"] exI [of _ w'] conjI m f)
qed

theorem likely_urgency_is_max_witness:
  "[bob] \<noteq> [] \<and>
   list_all2 (\<lambda>r x.
          clean_body x = clean_text (fillna (body r)) \<and>
          detect_urgency (fillna (subject r)) = Inr (urg_subj x) \<and>
          detect_urgency (Str (clean_body x)) = Inr (urg_body x) \<and>
          likely_urgency x \<in> {urg_subj x, urg_body x} \<and>
          urgency_le (urg_subj x) (likely_urgency x) \<and>
          urgency_le (urg_body x) (likely_urgency x)) [bob] (table_of (main no_key_env (Some [bob]) ()))"
proof -
  have ne: "[bob] \<noteq> []" by simp
  from likely_urgency_is_max [where df = "[bob]" and env = no_key_env and w = "()",
      THEN conjunct1, rule_format, OF ne]
  obtain out w' where m: "main no_key_env (Some [bob]) () = (Inr (Some out), w')"
    and l: "list_all2 (\<lambda>r x.
          clean_body x = clean_text (fillna (body r)) \<and>
          detect_urgency (fillna (subject r)) = Inr (urg_subj x) \<and>
          detect_urgency (Str (clean_body x)) = Inr (urg_body x) \<and>
          likely_urgency x \<in> {urg_subj x, urg_body x} \<and>
          urgency_le (urg_subj x) (likely_urgency x) \<and>
          urgency_le (urg_body x) (likely_urgency x)) [bob] out"
    by blast
  from m have "table_of (main no_key_env (Some [bob]) ()) = out"
    by (simp add: table_of_def)
  with l ne show ?thesis by simp
qed

section \<open>The end-to-end example\<close>

text \<open>
  Claim C8, as amended. For the row with sender Bob, subject
  \<^verbatim>\<open>URGENT: login issue\<close> and body \<^verbatim>\<open>I am blocked, please help, Regards, Bob\<close>, every
  run writes one row whose cleaned body is the whole body (its \<^verbatim>\<open>Regards,\<close> does not
  start a line, so nothing is cut) and whose three urgency columns are high.
\<close>

theorem bob_row_enriched:
  "\<exists>out w'. main env (Some [\<lparr>sender = Str ''Bob'', subject = Str ''URGENT: login issue'',
        body = Str ''I am blocked, please help, Regards, Bob''\<rparr>]) w = (Inr (Some out), w') \<and>
     map clean_body out = [''I am blocked, please help, Regards, Bob''] \<and>
     map urg_subj out = [''high''] \<and> map urg_body out = [''high''] \<and>
     map likely_urgency out = [''high'']"
proof -
  let ?r = "\<lparr>sender = Str ''Bob'', subject = Str ''URGENT: login issue'',
        body = Str ''I am blocked, please help, Regards, Bob''\<rparr>"
  have a: "detect_urgency (Str ''URGENT: login issue'') = Inr ''high''"
    by code_simp
  have c: "clean_text (Str ''I am blocked, please help, Regards, Bob'')
           = ''I am blocked, please help, Regards, Bob''"
    by code_simp
  have b: "detect_urgency (Str ''I am blocked, please help, Regards, Bob'') = Inr ''high''"
    by code_simp
  have p: "pick_urgency (''high'', ''high'') = Inr ''high''"
    by (simp add: pick_urgency_def order_def)
  from main_single [of env ?r w]
  obtain sr w' where m: "main env (Some [?r]) w = (Inr (Some [derive ?r sr]), w')"
    by blast
  have f: "map clean_body [derive ?r sr] = [''I am blocked, please help, Regards, Bob'']"
    "map urg_subj [derive ?r sr] = [''high'']" "map urg_body [derive ?r sr] = [''high'']"
    "map likely_urgency [derive ?r sr] = [''high'']"
    by (simp_all add: derive_def likely_of_def label_of_def a b c p del: clean_text.simps)
  show ?thesis
    by (intro exI [of _ "[derive ?r sr]"] exI [of _ w'] conjI m f)
qed

text \<open>
  Claim C8 as stated fails in the cleaned body, which is not cut before \<^verbatim>\<open>Regards,\<close>.
\<close>

theorem bob_row_clean_body_counterexample:
  "map clean_body (table_of (main no_key_env (Some
      [\<lparr>sender = Str ''Bob'', subject = Str ''URGENT: login issue'',
        body = Str ''I am blocked, please help, Regards, Bob''\<rparr>]) ()))
     = [''I am blocked, please help, Regards, Bob''] \<and>
   map clean_body (table_of (main no_key_env (Some
      [\<lparr>sender = Str ''Bob'', subject = Str ''URGENT: login issue'',
        body = Str ''I am blocked, please help, Regards, Bob''\<rparr>]) ()))
     \<noteq> [''I am blocked, please help,'']"
  by code_simp

section \<open>Topic of a row\<close>

text \<open>
  Claim C9, as amended. In every run on a table with rows, the column \<open>subject_topic\<close>
  of a row is what the
  topic classifier returns on the subject of the row as read, a missing subject being
  the empty string; the subject is not normalized first.
\<close>

theorem subject_topic_of_subject:
  "df \<noteq> [] \<Longrightarrow>
   \<exists>out w'. main env (Some df) w = (Inr (Some out), w') \<and>
     list_all2 (\<lambda>r x. detect_topic (fillna (subject r)) = Inr (subject_topic x)) df out"
proof (rule main_list_all2)
  fix r :: input_row and sr :: "string \<times> string"
  obtain s where s: "fillna (subject r) = Str s"
    using fillna_Str by blast
  show "detect_topic (fillna (subject r)) = Inr (subject_topic (derive r sr))"
    unfolding s using detect_topic_label [of s] by (simp add: derive_def s)
qed

theorem subject_topic_of_subject_witness:
  "[bob] \<noteq> [] \<and>
   list_all2 (\<lambda>r x. detect_topic (fillna (subject r)) = Inr (subject_topic x)) [bob] (table_of (main no_key_env (Some [bob]) ())) \<and>
   map subject_topic (table_of (main no_key_env (Some [bob]) ())) = [''login/account'']"
proof -
  have ne: "[bob] \<noteq> []" by simp
  from subject_topic_of_subject [OF ne, of no_key_env "()"]
  obtain out w' where m: "main no_key_env (Some [bob]) () = (Inr (Some out), w')"
    and l: "list_all2 (\<lambda>r x. detect_topic (fillna (subject r)) = Inr (subject_topic x)) [bob] out"
    by blast
  from m have t: "table_of (main no_key_env (Some [bob]) ()) = out"
    by (simp add: table_of_def)
  have d: "detect_topic (fillna (subject bob)) = Inr ''login/account''"
    unfolding bob_def by code_simp
  from l obtain x where x: "out = [x]" "detect_topic (fillna (subject bob)) = Inr (subject_topic x)"
    by (auto simp: list_all2_Cons1)
  with d have "map subject_topic out = [''login/account'']" by simp
  with l ne show ?thesis unfolding t by simp
qed

text \<open>
  Claim C9 as stated fails for a subject with a closing line in it: the topic comes
  from the whole subject, while the normalized subject has the topic general.
\<close>

theorem subject_topic_cleaned_counterexample:
  "map subject_topic (table_of (main no_key_env (Some
      [\<lparr>sender = Str ''Ann'', subject = Str ''Question\<newline>Thanks, billing team'',
        body = Str ''hi''\<rparr>]) ())) = [''billing/refund''] \<and>
   detect_topic (Str (clean_text (Str ''Question\<newline>Thanks, billing team''))) = Inr ''general''"
  by code_simp


section \<open>External generator and fallback\<close>

text \<open>
  Claim C2, as amended. No run on a table with rows is ended by the external
  generator: it writes a row for every input row, with the summary and reply that the
  loop body gives for the sender, cleaned body, topic and urgency of that row. Without a
  credential (unset or empty), or when every call raises, every row has the summary of
  \<open>summarize\<close> on the cleaned body with the default bound and the reply of
  \<open>generate_reply\<close>. In the loop body, both fields fall back and nothing is called when
  there is no credential or the client library cannot be imported; both fall back when
  either call raises or a returned content is not text. When both calls return, each
  field on its own is the deterministic text if its response is absent (no response, no
  choices), and else the returned text with its ends trimmed, kept as it is also when
  that is empty.
\<close>

theorem fallback_per_field:
  "(df \<noteq> [] \<longrightarrow> (\<exists>out w'. main env (Some df) w = (Inr (Some out), w') \<and>
      list_all2 (\<lambda>r x. \<exists>wi wi'.
          summary_and_reply env (sender x, clean_body x, subject_topic x, likely_urgency x) wi
            = ((summary x, auto_reply x), wi')) df out \<and>
      (api_key env = None \<or> api_key env = Some [] \<or>
       (\<forall>req wi. \<exists>e wi'. create env req wi = (Inl e, wi')) \<longrightarrow>
         list_all2 (\<lambda>r x. (summary x, auto_reply x)
             = fallback (sender x, clean_body x, subject_topic x, likely_urgency x)) df out))) \<and>
   (api_key env = None \<or> api_key env = Some [] \<or> \<not> openai_installed env \<longrightarrow>
      summary_and_reply env (who, cb, tp, ur) w0 = (fallback (who, cb, tp, ur), w0)) \<and>
   (api_key env = Some k \<and> k \<noteq> [] \<and> openai_installed env \<longrightarrow>
      (create env (summary_request env cb) w0 = (Inl e1, w1) \<longrightarrow>
         summary_and_reply env (who, cb, tp, ur) w0 = (fallback (who, cb, tp, ur), w1)) \<and>
      (create env (summary_request env cb) w0 = (Inr r1, w1) \<longrightarrow>
         (first_choice_text r1 = Inl e1 \<longrightarrow>
            summary_and_reply env (who, cb, tp, ur) w0 = (fallback (who, cb, tp, ur), w1)) \<and>
         (first_choice_text r1 = Inr so \<longrightarrow>
            (create env (reply_request env cb) w1 = (Inl e2, w2) \<longrightarrow>
               summary_and_reply env (who, cb, tp, ur) w0 = (fallback (who, cb, tp, ur), w2)) \<and>
            (create env (reply_request env cb) w1 = (Inr r2, w2) \<longrightarrow>
               (first_choice_text r2 = Inl e2 \<longrightarrow>
                  summary_and_reply env (who, cb, tp, ur) w0 = (fallback (who, cb, tp, ur), w2)) \<and>
               (first_choice_text r2 = Inr ro \<longrightarrow>
                  summary_and_reply env (who, cb, tp, ur) w0 =
                    ((case so of None \<Rightarrow> fst (fallback (who, cb, tp, ur)) | Some s \<Rightarrow> s,
                      case ro of None \<Rightarrow> snd (fallback (who, cb, tp, ur)) | Some s \<Rightarrow> s),
                     w2)))))) \<and>
   first_choice_text NoResponse = Inr None \<and>
   first_choice_text (Response []) = Inr None \<and>
   first_choice_text (Response (Str s # cs)) = Inr (Some (strip s)) \<and>
   first_choice_text (Response (PyNone # cs)) = Inl AttributeError"
proof (intro conjI)
  show "df \<noteq> [] \<longrightarrow> (\<exists>out w'. main env (Some df) w = (Inr (Some out), w') \<and>
      list_all2 (\<lambda>r x. \<exists>wi wi'.
          summary_and_reply env (sender x, clean_body x, subject_topic x, likely_urgency x) wi
            = ((summary x, auto_reply x), wi')) df out \<and>
      (api_key env = None \<or> api_key env = Some [] \<or>
       (\<forall>req wi. \<exists>e wi'. create env req wi = (Inl e, wi')) \<longrightarrow>
         list_all2 (\<lambda>r x. (summary x, auto_reply x)
             = fallback (sender x, clean_body x, subject_topic x, likely_urgency x)) df out))"
  proof
  assume ne: "df \<noteq> []"
  let ?R = "\<lambda>(r::input_row) x. \<exists>wi wi'.
          summary_and_reply env (sender x, clean_body x, subject_topic x, likely_urgency x) wi
            = ((summary x, auto_reply x), wi')"
  let ?D = "\<lambda>(r::input_row) x. (summary x, auto_reply x)
             = fallback (sender x, clean_body x, subject_topic x, likely_urgency x)"
  let ?off = "api_key env = None \<or> api_key env = Some [] \<or>
       (\<forall>req wi. \<exists>e wi'. create env req wi = (Inl e, wi'))"
  have "\<exists>out w'. main env (Some df) w = (Inr (Some out), w') \<and>
      list_all2 (\<lambda>r x. ?R r x \<and> (?off \<longrightarrow> ?D r x)) df out"
  proof (rule main_list_all2 [OF ne])
    fix r sr wi wi'
    assume sr: "summary_and_reply env (loop_input r) wi = (sr, wi')"
    have R: "?R r (derive r sr)"
      unfolding derive_fields using sr by (cases sr) auto
    have "?D r (derive r sr)" if off: ?off
    proof -
      obtain who cb tp ur where li: "loop_input r = (who, cb, tp, ur)"
        by (cases "loop_input r") auto
      have "\<exists>w1. try_openai_summary_and_reply env cb wi = ((None, None), w1)"
        using off try_openai_unavailable [of env cb wi] try_openai_always_raises [of env cb wi]
        by blast
      then obtain w1 where "try_openai_summary_and_reply env cb wi = ((None, None), w1)"
        by blast
      from summary_and_reply_none [OF this, of who tp ur] sr li
      have "sr = fallback (loop_input r)" by simp
      then show ?thesis unfolding derive_fields by simp
    qed
    with R show "?R r (derive r sr) \<and> (?off \<longrightarrow> ?D r (derive r sr))"
      by blast
  qed
  then obtain out w' where m: "main env (Some df) w = (Inr (Some out), w')"
    and l: "list_all2 (\<lambda>r x. ?R r x \<and> (?off \<longrightarrow> ?D r x)) df out"
    by blast
  have l1: "list_all2 ?R df out"
    using l by (rule list_all2_mono) blast
  have l2: "?off \<longrightarrow> list_all2 ?D df out"
  proof
    assume ?off
    with l show "list_all2 ?D df out"
      by (elim list_all2_mono) blast
  qed
  from m l1 l2 show "\<exists>out w'. main env (Some df) w = (Inr (Some out), w') \<and>
      list_all2 ?R df out \<and> (?off \<longrightarrow> list_all2 ?D df out)"
    by blast
  qed
next
  show "api_key env = None \<or> api_key env = Some [] \<or> \<not> openai_installed env \<longrightarrow>
      summary_and_reply env (who, cb, tp, ur) w0 = (fallback (who, cb, tp, ur), w0)"
    using try_openai_unavailable [of env cb w0] summary_and_reply_none [of env cb w0 w0 who tp ur]
    by blast
next
  show "api_key env = Some k \<and> k \<noteq> [] \<and> openai_installed env \<longrightarrow>
      (create env (summary_request env cb) w0 = (Inl e1, w1) \<longrightarrow>
         summary_and_reply env (who, cb, tp, ur) w0 = (fallback (who, cb, tp, ur), w1)) \<and>
      (create env (summary_request env cb) w0 = (Inr r1, w1) \<longrightarrow>
         (first_choice_text r1 = Inl e1 \<longrightarrow>
            summary_and_reply env (who, cb, tp, ur) w0 = (fallback (who, cb, tp, ur), w1)) \<and>
         (first_choice_text r1 = Inr so \<longrightarrow>
            (create env (reply_request env cb) w1 = (Inl e2, w2) \<longrightarrow>
               summary_and_reply env (who, cb, tp, ur) w0 = (fallback (who, cb, tp, ur), w2)) \<and>
            (create env (reply_request env cb) w1 = (Inr r2, w2) \<longrightarrow>
               (first_choice_text r2 = Inl e2 \<longrightarrow>
                  summary_and_reply env (who, cb, tp, ur) w0 = (fallback (who, cb, tp, ur), w2)) \<and>
               (first_choice_text r2 = Inr ro \<longrightarrow>
                  summary_and_reply env (who, cb, tp, ur) w0 =
                    ((case so of None \<Rightarrow> fst (fallback (who, cb, tp, ur)) | Some s \<Rightarrow> s,
                      case ro of None \<Rightarrow> snd (fallback (who, cb, tp, ur)) | Some s \<Rightarrow> s),
                     w2)))))"
  proof (intro impI, elim conjE)
    assume "api_key env = Some k" "k \<noteq> []" "openai_installed env"
    note t = try_openai_available [OF this, of cb w0]
    show "(create env (summary_request env cb) w0 = (Inl e1, w1) \<longrightarrow>
         summary_and_reply env (who, cb, tp, ur) w0 = (fallback (who, cb, tp, ur), w1)) \<and>
      (create env (summary_request env cb) w0 = (Inr r1, w1) \<longrightarrow>
         (first_choice_text r1 = Inl e1 \<longrightarrow>
            summary_and_reply env (who, cb, tp, ur) w0 = (fallback (who, cb, tp, ur), w1)) \<and>
         (first_choice_text r1 = Inr so \<longrightarrow>
            (create env (reply_request env cb) w1 = (Inl e2, w2) \<longrightarrow>
               summary_and_reply env (who, cb, tp, ur) w0 = (fallback (who, cb, tp, ur), w2)) \<and>
            (create env (reply_request env cb) w1 = (Inr r2, w2) \<longrightarrow>
               (first_choice_text r2 = Inl e2 \<longrightarrow>
                  summary_and_reply env (who, cb, tp, ur) w0 = (fallback (who, cb, tp, ur), w2)) \<and>
               (first_choice_text r2 = Inr ro \<longrightarrow>
                  summary_and_reply env (who, cb, tp, ur) w0 =
                    ((case so of None \<Rightarrow> fst (fallback (who, cb, tp, ur)) | Some s \<Rightarrow> s,
                      case ro of None \<Rightarrow> snd (fallback (who, cb, tp, ur)) | Some s \<Rightarrow> s),
                     w2)))))"
      by (intro conjI impI)
        (simp_all add: summary_and_reply_def fallback_def t split: option.splits)
  qed
qed simp_all

theorem fallback_per_field_witness:
  "summary_and_reply no_key_env bob_loop () = (fallback bob_loop, ()) \<and>
   summary_and_reply scripted bob_loop [Inl (OtherException ''quota'')]
     = (fallback bob_loop, []) \<and>
   summary_and_reply scripted bob_loop [Inr (Response [PyNone])] = (fallback bob_loop, []) \<and>
   summary_and_reply scripted bob_loop
       [Inr (Response [Str ''Blocked user.'']), Inl (OtherException ''quota'')]
     = (fallback bob_loop, []) \<and>
   summary_and_reply scripted bob_loop
       [Inr (Response [Str ''Blocked user.'']), Inr (Response [NaN])]
     = (fallback bob_loop, []) \<and>
   summary_and_reply scripted bob_loop [Inr NoResponse, Inr (Response [Str '' On it. ''])]
     = ((fst (fallback bob_loop), ''On it.''), []) \<and>
   summary_and_reply scripted bob_loop [Inr (Response [Str '' Blocked user. '']), Inr (Response [])]
     = ((''Blocked user.'', snd (fallback bob_loop)), []) \<and>
   list_all2 (\<lambda>r x. (summary x, auto_reply x)
        = fallback (sender x, clean_body x, subject_topic x, likely_urgency x))
     [bob] (table_of (main failing_env (Some [bob]) ()))"
proof -
  let ?E = "OtherException ''quota''"
  let ?cb = "''I am blocked''"
  have key: "api_key scripted = Some ''sk-test'' \<and> ''sk-test'' \<noteq> [] \<and> openai_installed scripted"
    by (simp add: scripted_def)
  have nk: "api_key no_key_env = None \<or> api_key no_key_env = Some [] \<or> \<not> openai_installed no_key_env"
    by (simp add: no_key_env_def)
  have cr: "create scripted req (x # xs) = (x, xs)" for req x xs
    by (simp add: scripted_def)
  have s1: "strip '' On it. '' = ''On it.''" "strip '' Blocked user. '' = ''Blocked user.''"
    "strip ''Blocked user.'' = ''Blocked user.''"
    by code_simp+
  have 1: "summary_and_reply no_key_env bob_loop () = (fallback bob_loop, ())"
    using fallback_per_field [where env = no_key_env and who = "Str ''Bob''" and cb = ?cb
        and tp = "''login/account''" and ur = "''high''" and ?w0.0 = "()"] nk
    unfolding bob_loop_def by blast
  have 2: "summary_and_reply scripted bob_loop [Inl ?E] = (fallback bob_loop, [])"
    using fallback_per_field [where env = scripted and who = "Str ''Bob''" and cb = ?cb
        and tp = "''login/account''" and ur = "''high''" and ?w0.0 = "[Inl ?E]"
        and k = "''sk-test''" and ?e1.0 = ?E and ?w1.0 = "[]"]
      key cr [of "summary_request scripted ?cb" "Inl ?E" "[]"]
    unfolding bob_loop_def by blast
  have 3: "summary_and_reply scripted bob_loop [Inr (Response [PyNone])] = (fallback bob_loop, [])"
    using fallback_per_field [where env = scripted and who = "Str ''Bob''" and cb = ?cb
        and tp = "''login/account''" and ur = "''high''" and ?w0.0 = "[Inr (Response [PyNone])]"
        and k = "''sk-test''" and ?r1.0 = "Response [PyNone]" and ?e1.0 = AttributeError
        and ?w1.0 = "[]"]
      key cr [of "summary_request scripted ?cb" "Inr (Response [PyNone])" "[]"]
    unfolding bob_loop_def by (simp del: fun_upd_apply)
  have f1: "first_choice_text (Response [Str ''Blocked user.'']) = Inr (Some ''Blocked user.'')"
    "first_choice_text (Response [Str '' Blocked user. '']) = Inr (Some ''Blocked user.'')"
    "first_choice_text (Response [Str '' On it. '']) = Inr (Some ''On it.'')"
    by (simp_all add: s1)
  have 4: "summary_and_reply scripted bob_loop
       [Inr (Response [Str ''Blocked user.'']), Inl ?E] = (fallback bob_loop, [])"
    using fallback_per_field [where env = scripted and who = "Str ''Bob''" and cb = ?cb
        and tp = "''login/account''" and ur = "''high''"
        and ?w0.0 = "[Inr (Response [Str ''Blocked user.'']), Inl ?E]"
        and k = "''sk-test''" and ?r1.0 = "Response [Str ''Blocked user.'']"
        and ?w1.0 = "[Inl ?E]" and so = "Some ''Blocked user.''" and ?e2.0 = ?E and ?w2.0 = "[]"]
      key cr [of "summary_request scripted ?cb" "Inr (Response [Str ''Blocked user.''])" "[Inl ?E]"]
      cr [of "reply_request scripted ?cb" "Inl ?E" "[]"] f1(1)
    unfolding bob_loop_def by blast
  have 5: "summary_and_reply scripted bob_loop
       [Inr (Response [Str ''Blocked user.'']), Inr (Response [NaN])] = (fallback bob_loop, [])"
    using fallback_per_field [where env = scripted and who = "Str ''Bob''" and cb = ?cb
        and tp = "''login/account''" and ur = "''high''"
        and ?w0.0 = "[Inr (Response [Str ''Blocked user.'']), Inr (Response [NaN])]"
        and k = "''sk-test''" and ?r1.0 = "Response [Str ''Blocked user.'']"
        and ?w1.0 = "[Inr (Response [NaN])]" and so = "Some ''Blocked user.''"
        and ?r2.0 = "Response [NaN]" and ?e2.0 = AttributeError and ?w2.0 = "[]"]
      key cr [of "summary_request scripted ?cb" "Inr (Response [Str ''Blocked user.''])"
        "[Inr (Response [NaN])]"]
      cr [of "reply_request scripted ?cb" "Inr (Response [NaN])" "[]"] f1(1)
    unfolding bob_loop_def by (simp del: fun_upd_apply)
  have 6: "summary_and_reply scripted bob_loop [Inr NoResponse, Inr (Response [Str '' On it. ''])]
     = ((fst (fallback bob_loop), ''On it.''), [])"
    using fallback_per_field [where env = scripted and who = "Str ''Bob''" and cb = ?cb
        and tp = "''login/account''" and ur = "''high''"
        and ?w0.0 = "[Inr NoResponse, Inr (Response [Str '' On it. ''])]"
        and k = "''sk-test''" and ?r1.0 = NoResponse
        and ?w1.0 = "[Inr (Response [Str '' On it. ''])]" and so = None
        and ?r2.0 = "Response [Str '' On it. '']" and ro = "Some ''On it.''" and ?w2.0 = "[]"]
      key cr [of "summary_request scripted ?cb" "Inr NoResponse" "[Inr (Response [Str '' On it. ''])]"]
      cr [of "reply_request scripted ?cb" "Inr (Response [Str '' On it. ''])" "[]"] f1(3)
    unfolding bob_loop_def by (simp del: fun_upd_apply)
  have 7: "summary_and_reply scripted bob_loop
       [Inr (Response [Str '' Blocked user. '']), Inr (Response [])]
     = ((''Blocked user.'', snd (fallback bob_loop)), [])"
    using fallback_per_field [where env = scripted and who = "Str ''Bob''" and cb = ?cb
        and tp = "''login/account''" and ur = "''high''"
        and ?w0.0 = "[Inr (Response [Str '' Blocked user. '']), Inr (Response [])]"
        and k = "''sk-test''" and ?r1.0 = "Response [Str '' Blocked user. '']"
        and ?w1.0 = "[Inr (Response [])]" and so = "Some ''Blocked user.''"
        and ?r2.0 = "Response []" and ro = None and ?w2.0 = "[]"]
      key cr [of "summary_request scripted ?cb" "Inr (Response [Str '' Blocked user. ''])"
        "[Inr (Response [])]"]
      cr [of "reply_request scripted ?cb" "Inr (Response [])" "[]"] f1(2)
    unfolding bob_loop_def by (simp del: fun_upd_apply)
  have off: "\<forall>req wi. \<exists>e wi'. create failing_env req wi = (Inl e, wi')"
    by (simp add: failing_env_def)
  have ne: "[bob] \<noteq> []" by simp
  from fallback_per_field [where env = failing_env and df = "[bob]" and w = "()",
      THEN conjunct1, rule_format, OF ne] off
  obtain out w' where m: "main failing_env (Some [bob]) () = (Inr (Some out), w')"
    and d: "list_all2 (\<lambda>r x. (summary x, auto_reply x)
        = fallback (sender x, clean_body x, subject_topic x, likely_urgency x)) [bob] out"
    by blast
  from m have "table_of (main failing_env (Some [bob]) ()) = out"
    by (simp add: table_of_def)
  with d have 8: "list_all2 (\<lambda>r x. (summary x, auto_reply x)
        = fallback (sender x, clean_body x, subject_topic x, likely_urgency x))
     [bob] (table_of (main failing_env (Some [bob]) ()))"
    by simp
  from 1 2 3 4 5 6 7 8 show ?thesis by blast
qed

text \<open>
  Claim C2 as stated fails for a generator that returns texts that are empty once
  trimmed: the row keeps the empty summary and the empty reply, where the deterministic
  summary is the cleaned body.
\<close>

theorem empty_generated_text_counterexample:
  "map clean_body (table_of (main scripted (Some [bob])
      [Inr (Response [Str []]), Inr (Response [Str '' '']) ])) =
     [''I am blocked, please help, Regards, Bob''] \<and>
   summarize (Str ''I am blocked, please help, Regards, Bob'') default_max_words
     = ''I am blocked, please help, Regards, Bob'' \<and>
   map summary (table_of (main scripted (Some [bob])
      [Inr (Response [Str []]), Inr (Response [Str '' '']) ])) = [[]] \<and>
   map auto_reply (table_of (main scripted (Some [bob])
      [Inr (Response [Str []]), Inr (Response [Str '' '']) ])) = [[]]"
  by code_simp


end
